(* ===== verification/Prelude.thy ===== *)
theory Prelude
  imports Main "HOL-Library.Sublist"
begin

text \<open>
  Shared vocabulary of the development: the backtracking combinators used to model the
  JavaScript regular expression of the pager (\<open>first_some\<close>, \<open>match_lit\<close>,
  \<open>star_greedy\<close>), their characteristic lemmas, and the collection \<open>step_simps\<close>
  into which every component puts the equations of its operations on each branch.
\<close>

named_theorems step_simps "branch equations of the modelled operations"

section \<open>Backtracking search\<close>

text \<open>
  \<open>first_some f xs\<close> returns the result of the first candidate of \<open>xs\<close> on which
  \<open>f\<close> succeeds: the order in which a backtracking matcher tries its alternatives.
\<close>

fun first_some :: "('a \<Rightarrow> 'b option) \<Rightarrow> 'a list \<Rightarrow> 'b option" where
  "first_some f [] = None"
| "first_some f (x # xs) = (case f x of None \<Rightarrow> first_some f xs | Some y \<Rightarrow> Some y)"

text \<open>\<open>match_lit p xs\<close>: the literal \<open>p\<close> at the front of \<open>xs\<close>, returning the rest.\<close>

definition match_lit :: "string \<Rightarrow> string \<Rightarrow> string option" where
  "match_lit p xs = (if take (length p) xs = p then Some (drop (length p) xs) else None)"

text \<open>
  \<open>star_greedy P xs k\<close> is a greedy \<open>C*\<close> for a character class \<open>P\<close> followed by the
  continuation \<open>k\<close> (which receives the consumed part and the rest): the longest run of
  \<open>P\<close>-characters is tried first, then shorter ones, as ECMAScript's RepeatMatcher does
  for a greedy quantifier over a single-character atom.
\<close>

definition star_greedy ::
  "(char \<Rightarrow> bool) \<Rightarrow> string \<Rightarrow> (string \<Rightarrow> string \<Rightarrow> 'b option) \<Rightarrow> 'b option" where
  "star_greedy P xs k =
     first_some (\<lambda>i. k (take i xs) (drop i xs)) (rev [0..<Suc (length (takeWhile P xs))])"

section \<open>Lemmas on the combinators\<close>

lemma first_some_append:
  "first_some f (xs @ ys) = (case first_some f xs of None \<Rightarrow> first_some f ys | Some y \<Rightarrow> Some y)"
  by (induction xs) (auto split: option.splits)

lemma first_some_None_iff: "first_some f xs = None \<longleftrightarrow> (\<forall>x \<in> set xs. f x = None)"
  by (induction xs) (auto split: option.splits)

lemma first_some_SomeE:
  assumes "first_some f xs = Some y"
  obtains x where "x \<in> set xs" "f x = Some y"
  using assms by (induction xs) (auto split: option.splits)

lemma first_some_pick:
  assumes "\<forall>z \<in> set ys. f z = None" and "f x = Some y"
  shows "first_some f (ys @ x # zs) = Some y"
proof -
  have "first_some f ys = None" using assms(1) by (simp add: first_some_None_iff)
  then show ?thesis using assms(2) by (simp add: first_some_append)
qed

lemma match_lit_Some_iff [simp]: "match_lit p xs = Some r \<longleftrightarrow> xs = p @ r"
  by (auto simp: match_lit_def) (metis append_take_drop_id)

lemma match_lit_append [simp]: "match_lit p (p @ r) = Some r"
  by simp

lemma match_lit_None_iff: "match_lit p xs = None \<longleftrightarrow> \<not> prefix p xs"
  by (auto simp: match_lit_def prefix_def) (metis append_take_drop_id)

lemma rev_upt_split:
  assumes "i \<le> n"
  shows "rev [0..<Suc n] = rev [Suc i..<Suc n] @ i # rev [0..<i]"
proof -
  have "[0..<Suc n] = [0..<i] @ [i..<Suc n]"
    using upt_add_eq_append [of 0 i "Suc n - i"] assms by simp
  moreover have "[i..<Suc n] = i # [Suc i..<Suc n]"
    using assms by (simp add: upt_conv_Cons)
  ultimately show ?thesis by simp
qed

text \<open>
  The greedy quantifier returns the result of the longest run whose continuation succeeds:
  the maximality condition that characterises a greedy match.
\<close>

lemma star_greedy_pick:
  assumes "i \<le> length (takeWhile P xs)"
    and "k (take i xs) (drop i xs) = Some y"
    and "\<forall>j. i < j \<and> j \<le> length (takeWhile P xs) \<longrightarrow> k (take j xs) (drop j xs) = None"
  shows "star_greedy P xs k = Some y"
proof -
  let ?n = "length (takeWhile P xs)"
  have "\<forall>j \<in> set (rev [Suc i..<Suc ?n]). k (take j xs) (drop j xs) = None"
    using assms(3) by auto
  then have "first_some (\<lambda>j. k (take j xs) (drop j xs)) (rev [Suc i..<Suc ?n] @ i # rev [0..<i]) = Some y"
    using assms(2) by (rule first_some_pick)
  then show ?thesis unfolding star_greedy_def rev_upt_split [OF assms(1)] .
qed

lemma star_greedy_SomeE:
  assumes "star_greedy P xs k = Some y"
  obtains i where "i \<le> length (takeWhile P xs)" "k (take i xs) (drop i xs) = Some y"
proof -
  from assms obtain i where "i \<in> set (rev [0..<Suc (length (takeWhile P xs))])"
    and k: "k (take i xs) (drop i xs) = Some y"
    unfolding star_greedy_def by (rule first_some_SomeE)
  then have "i \<le> length (takeWhile P xs)" by auto
  then show ?thesis using k by (rule that)
qed

text \<open>When every successful continuation returns the same value, so does the quantifier.\<close>

lemma star_greedy_const:
  assumes "i \<le> length (takeWhile P xs)" and "k (take i xs) (drop i xs) = Some y"
    and "\<forall>u v z. k u v = Some z \<longrightarrow> z = y"
  shows "star_greedy P xs k = Some y"
proof (cases "star_greedy P xs k")
  case None
  have "i \<in> set (rev [0..<Suc (length (takeWhile P xs))])" using assms(1) by auto
  moreover have "\<forall>j \<in> set (rev [0..<Suc (length (takeWhile P xs))]). k (take j xs) (drop j xs) = None"
    using None unfolding star_greedy_def first_some_None_iff .
  ultimately show ?thesis using assms(2) by auto
next
  case (Some z)
  then obtain j where "k (take j xs) (drop j xs) = Some z" by (rule star_greedy_SomeE)
  with assms(3) Some show ?thesis by auto
qed

lemma takeWhile_append_all:
  "\<forall>x \<in> set xs. P x \<Longrightarrow> length xs \<le> length (takeWhile P (xs @ ys))"
  by (induction xs) auto

lemma takeWhile_length_stop:
  "\<not> P y \<Longrightarrow> \<forall>x \<in> set xs. P x \<Longrightarrow> length (takeWhile P (xs @ y # ys)) = length xs"
  by (induction xs) auto

lemma find_Some_split:
  "find P xs = Some v \<longleftrightarrow> (\<exists>ys zs. xs = ys @ v # zs \<and> P v \<and> (\<forall>w \<in> set ys. \<not> P w))"
proof (induction xs)
  case Nil
  then show ?case by simp
next
  case (Cons x xs)
  show ?case
  proof (cases "P x")
    case True
    then show ?thesis by (auto simp: Cons_eq_append_conv)
  next
    case False
    then show ?thesis using Cons by (auto simp: Cons_eq_append_conv) (metis set_ConsD)
  qed
qed

lemma prefix_drop_sublist: "prefix p (drop j xs) \<Longrightarrow> sublist p xs"
  by (metis append_take_drop_id prefix_imp_sublist sublist_order.order_trans sublist_append_leftI)

text \<open>A pattern without the character \<open>x\<close> occurs on one side of an \<open>x\<close>.\<close>

lemma sublist_sep:
  assumes x: "x \<notin> set p" and s: "sublist p (a @ x # b)"
  shows "sublist p a \<or> sublist p b"
proof (cases "p = []")
  case False
  from s consider "sublist p a" | "sublist p (x # b)"
    | xs1 xs2 where "p = xs1 @ xs2" "suffix xs1 a" "prefix xs2 (x # b)"
    by (auto simp: sublist_append)
  then show ?thesis
  proof cases
    case 2
    then have "prefix p (x # b) \<or> sublist p b" by (simp add: sublist_Cons_right)
    then show ?thesis using x False by (cases p) auto
  next
    case (3 xs1 xs2)
    then show ?thesis using x by (cases xs2) (auto intro: suffix_imp_sublist)
  qed simp
qed simp

text \<open>A run of \<open>P\<close>-characters followed by a stop: \<open>takeWhile\<close> and \<open>dropWhile\<close> split there.\<close>

lemma takeWhile_dropWhile_append:
  assumes "\<forall>c \<in> set xs. P c" and "r = [] \<or> \<not> P (hd r)"
  shows "takeWhile P (xs @ r) = xs" and "dropWhile P (xs @ r) = r"
  using assms by (induction xs) (cases r; auto)+

lemma dropWhile_Cons_shorter: "dropWhile P xs = y # ys \<Longrightarrow> length ys < length xs"
  by (metis length_Cons length_dropWhile_le less_eq_Suc_le)

text \<open>
  A sublist starting with a character that occurs once in the list starts at that
  occurrence.
\<close>

lemma sublist_at_unique:
  assumes "x \<notin> set a" and "x \<notin> set b" and "sublist (x # t) (a @ x # b)"
  shows "prefix t b"
proof -
  consider "sublist (x # t) a" | "sublist (x # t) (x # b)"
    | xs1 xs2 where "x # t = xs1 @ xs2" "suffix xs1 a" "prefix xs2 (x # b)"
    using assms(3) by (auto simp: sublist_append)
  then show ?thesis
  proof cases
    case 1
    then show ?thesis using assms(1) set_mono_sublist by fastforce
  next
    case 2
    then show ?thesis using assms(2) set_mono_sublist by (fastforce simp: sublist_Cons_right)
  next
    case 3
    show ?thesis
    proof (cases xs1)
      case Nil
      then have "prefix (x # t) (x # b)" using 3 by simp
      then show ?thesis by simp
    next
      case (Cons y ys)
      then have "x \<in> set xs1" using 3(1) by simp
      then show ?thesis using 3(2) assms(1) set_mono_suffix by fastforce
    qed
  qed
qed

end
