(* ===== verification/Shop_Model.thy ===== *)
theory Shop_Model
  imports Prelude
begin

text \<open>
  The data the program handles (\<^verbatim>\<open>src/index.js\<close>): the JSON objects of the Shopify
  Admin API as records, the outcome of an axios call as a datatype, the observable effects
  of the program (requests, sleeps, console output) as events, and the transport as an
  interface: a function from the history of effects and the request to the reply.
  It also models the two string builtins the reorder policy uses,
  \<^verbatim>\<open>String.prototype.toLowerCase\<close> and \<^verbatim>\<open>String.prototype.includes\<close>.
\<close>

section \<open>Catalog objects\<close>

text \<open>
  A variant object \<^verbatim>\<open>{id, title, position}\<close> and a product object
  \<^verbatim>\<open>{id, title, variants}\<close>, as the code reads them (\<^verbatim>\<open>v.title\<close>,
  \<^verbatim>\<open>v.position\<close>, \<^verbatim>\<open>v.id\<close>, \<^verbatim>\<open>product.variants\<close>). The \<open>id\<close> and
  \<open>title\<close> fields are prefixed to keep the two records apart and clear of HOL's \<open>id\<close>.
\<close>

record variant =
  vid :: nat
  vtitle :: string
  position :: int

record product =
  pid :: nat
  ptitle :: string
  variants :: "variant list"

text \<open>
  The part of a listing response the pager reads: \<^verbatim>\<open>data.products\<close> (\<open>None\<close> when
  absent or null) and \<^verbatim>\<open>headers['link']\<close> (\<open>None\<close> when the header is missing).
\<close>

record page =
  products :: "product list option"
  link :: "string option"

section \<open>Transport\<close>

text \<open>
  An axios call resolves with the response for a 2xx status (\<open>Ok\<close>), rejects with an
  error carrying \<^verbatim>\<open>error.response.status\<close> and \<^verbatim>\<open>error.response.data\<close> for any
  other status (\<open>Fail\<close>), and rejects with no \<^verbatim>\<open>error.response\<close> when no response
  arrived (\<open>NoResponse\<close>).
\<close>

datatype 'a reply = Ok 'a | Fail nat string | NoResponse

text \<open>The error the program propagates to its top level.\<close>

datatype http_error = HttpError nat string | NetworkError

text \<open>
  Observable effects, in the order the program performs them: the requests it issues,
  the sleeps, and the console lines (with their data, not their formatting).
\<close>

datatype event =
    is_get: EvGet string
  | is_put: EvPut nat int
  | is_sleep: EvSleep nat
  | EvWarn429 nat
  | is_page: EvPage nat nat
  | EvReorder nat string int int
  | EvReorderDone
  | EvFinished
  | is_error: EvError http_error

text \<open>
  The transport (the axios client of lines 8--14, and the store behind it) is an
  interface: the reply to a GET of a path and to a PUT of a variant position, as a
  function of everything the program did before. Any server behaviour, including one whose
  answers change because of earlier writes, is such a function.
\<close>

record transport =
  get_reply :: "event list \<Rightarrow> string \<Rightarrow> page reply"
  put_reply :: "event list \<Rightarrow> nat \<Rightarrow> int \<Rightarrow> unit reply"

text \<open>
  \<^verbatim>\<open>sleep(ms)\<close> (lines 16--18) returns a promise that a timer resolves after
  \<open>ms\<close> milliseconds; awaiting it suspends the run, which is its one effect.
\<close>

definition sleep :: "nat \<Rightarrow> event list \<Rightarrow> event list" where
  "sleep ms tr = tr @ [EvSleep ms]"

declare sleep_def [simp]

text \<open>
  An operation of the program takes the history so far and returns its result (an error
  or a value) with the extended history.
\<close>

type_synonym 'a outcome = "(http_error + 'a) \<times> event list"

text \<open>Measures of a history: requests issued and time slept.\<close>

definition gets :: "event list \<Rightarrow> nat" where
  "gets es = length (filter is_get es)"

definition puts :: "event list \<Rightarrow> nat" where
  "puts es = length (filter is_put es)"

fun sleep_total :: "event list \<Rightarrow> nat" where
  "sleep_total [] = 0"
| "sleep_total (EvSleep ms # es) = ms + sleep_total es"
| "sleep_total (e # es) = sleep_total es"

text \<open>
  A transport whose store accepts every write and whose listing is empty: the environment
  of the examples below.
\<close>

definition accept_all :: transport where
  "accept_all = \<lparr>get_reply = (\<lambda>_ _. Ok \<lparr>products = None, link = None\<rparr>), put_reply = (\<lambda>_ _ _. Ok ())\<rparr>"

section \<open>String builtins\<close>

text \<open>
  HOL characters are the 256 code units of Latin-1. On these, JavaScript's
  \<^verbatim>\<open>toLowerCase\<close> maps \<open>A\<close>--\<open>Z\<close> and the Latin-1 capitals
  U+00C0--U+00DE (except U+00D7, the multiplication sign) to the character 32 places on,
  and leaves every other character alone.
\<close>

definition toLowerChar :: "char \<Rightarrow> char" where
  "toLowerChar c =
     (let n = (of_char c :: nat)
      in if (65 \<le> n \<and> n \<le> 90) \<or> (192 \<le> n \<and> n \<le> 222 \<and> n \<noteq> 215) then char_of (n + 32) else c)"

definition toLowerCase :: "string \<Rightarrow> string" where
  "toLowerCase s = map toLowerChar s"

text \<open>\<^verbatim>\<open>s.includes(p)\<close>: \<open>p\<close> occurs in \<open>s\<close> at some position.\<close>

fun str_includes :: "string \<Rightarrow> string \<Rightarrow> bool" where
  "str_includes [] p = (p = [])"
| "str_includes (c # s) p = (take (length p) (c # s) = p \<or> str_includes s p)"

section \<open>Lemmas\<close>

lemma take_length_eq_prefix: "take (length p) xs = p \<longleftrightarrow> prefix p xs"
  by (auto simp: prefix_def) (metis append_take_drop_id)

lemma str_includes_sublist: "str_includes s p \<longleftrightarrow> sublist p s"
  by (induction s) (auto simp: take_length_eq_prefix sublist_Cons_right)

lemma gets_append [simp]: "gets (xs @ ys) = gets xs + gets ys"
  and gets_Cons [simp]: "gets (e # xs) = (if is_get e then Suc (gets xs) else gets xs)"
  and gets_Nil [simp]: "gets [] = 0"
  by (simp_all add: gets_def)

lemma puts_append [simp]: "puts (xs @ ys) = puts xs + puts ys"
  and puts_Cons [simp]: "puts (e # xs) = (if is_put e then Suc (puts xs) else puts xs)"
  and puts_Nil [simp]: "puts [] = 0"
  by (simp_all add: puts_def)

lemma sleep_total_append [simp]: "sleep_total (xs @ ys) = sleep_total xs + sleep_total ys"
  by (induction xs rule: sleep_total.induct) auto

end
