(* ===== verification/Retrier.thy ===== *)
theory Retrier
  imports Shop_Model
begin

text \<open>
  The backoff retrier, \<^verbatim>\<open>retryRequest(url, retriesLeft = 5, delay = 1000)\<close>
  (\<^verbatim>\<open>src/index.js\<close>, lines 20--31): one GET; on a 429 reply with retries left, a
  warning, a sleep of \<open>delay\<close> and a retry with the delay doubled; any other failure is
  rethrown. The lemmas give the exact history of every run (\<open>retry_shape\<close>), from which
  the success-after-\<open>k\<close>-rate-limits, exhaustion and no-retry-on-other-errors
  behaviours and the bounds on requests and waiting follow.
\<close>

section \<open>Definition\<close>

fun retryRequest :: "transport \<Rightarrow> string \<Rightarrow> nat \<Rightarrow> nat \<Rightarrow> event list \<Rightarrow> page outcome" where
  "retryRequest T url retriesLeft delay tr =
     (let tr' = tr @ [EvGet url] in
      case get_reply T tr url of
        Ok pg \<Rightarrow> (Inr pg, tr')
      | Fail status body \<Rightarrow>
          (if status = 429 \<and> 0 < retriesLeft
           then retryRequest T url (retriesLeft - 1) (delay * 2) (sleep delay (tr' @ [EvWarn429 delay]))
           else (Inl (HttpError status body), tr'))
      | NoResponse \<Rightarrow> (Inl NetworkError, tr'))"

declare retryRequest.simps [simp del]

text \<open>
  The history of \<open>k\<close> rate-limited attempts starting with delay \<open>d\<close>: each is the
  GET, the warning and the sleep, with delays \<open>d, 2d, 4d, \<dots>\<close>.
\<close>

definition backoff_trace :: "string \<Rightarrow> nat \<Rightarrow> nat \<Rightarrow> event list" where
  "backoff_trace url d k =
     concat (map (\<lambda>i. [EvGet url, EvWarn429 (d * 2 ^ i), EvSleep (d * 2 ^ i)]) [0..<k])"

text \<open>What the result of the last attempt makes of its reply.\<close>

definition reply_result :: "page reply \<Rightarrow> http_error + page" where
  "reply_result r = (case r of Ok pg \<Rightarrow> Inr pg | Fail st b \<Rightarrow> Inl (HttpError st b) | NoResponse \<Rightarrow> Inl NetworkError)"

definition is_429 :: "'a reply \<Rightarrow> bool" where
  "is_429 r = (case r of Fail st _ \<Rightarrow> st = 429 | _ \<Rightarrow> False)"

text \<open>
  A server that answers the first \<open>k\<close> GETs of a run with 429 and the later ones with
  an empty page, and accepts every write: the environment of the examples.
\<close>

definition throttled :: "nat \<Rightarrow> transport" where
  "throttled k =
     \<lparr>get_reply = (\<lambda>h _. if gets h < k then Fail 429 ''Too Many Requests''
                         else Ok \<lparr>products = Some [], link = None\<rparr>),
      put_reply = (\<lambda>_ _ _. Ok ())\<rparr>"

section \<open>Lemmas\<close>

lemma backoff_trace_0 [simp]: "backoff_trace url d 0 = []"
  by (simp add: backoff_trace_def)

lemma backoff_trace_Suc:
  "backoff_trace url d (Suc k) = [EvGet url, EvWarn429 d, EvSleep d] @ backoff_trace url (d * 2) k"
proof -
  have "[0..<Suc k] = 0 # map Suc [0..<k]" by (simp add: map_Suc_upt upt_conv_Cons)
  then show ?thesis by (simp add: backoff_trace_def comp_def mult.assoc)
qed

lemma gets_backoff_trace [simp]: "gets (backoff_trace url d k) = k"
  by (induction k arbitrary: d) (simp_all add: backoff_trace_Suc)

lemma sleep_backoff_trace [simp]: "sleep_total (backoff_trace url d k) = d * (2 ^ k - 1)"
proof (induction k arbitrary: d)
  case 0
  then show ?case by simp
next
  case (Suc k)
  have e1: "d * 2 * (2 ^ k - 1) = 2 * (d * 2 ^ k) - 2 * d"
    by (simp add: diff_mult_distrib2 algebra_simps)
  have e2: "d * (2 ^ Suc k - 1) = 2 * (d * 2 ^ k) - d"
    by (simp add: diff_mult_distrib2 algebra_simps)
  have "d \<le> d * 2 ^ k" by simp
  then have "d + d * 2 * (2 ^ k - 1) = d * (2 ^ Suc k - 1)"
    using e1 e2 by linarith
  with Suc show ?case by (simp add: backoff_trace_Suc)
qed

lemma puts_backoff_trace [simp]: "puts (backoff_trace url d k) = 0"
  by (induction k arbitrary: d) (simp_all add: backoff_trace_Suc)

text \<open>One unfolding of the retrier, by the reply it gets.\<close>

lemma retry_Ok [step_simps]:
  "get_reply T tr url = Ok pg \<Longrightarrow> retryRequest T url n d tr = (Inr pg, tr @ [EvGet url])"
  by (simp add: retryRequest.simps)

lemma retry_429 [step_simps]:
  "get_reply T tr url = Fail 429 b \<Longrightarrow> n = Suc m \<Longrightarrow>
   retryRequest T url n d tr = retryRequest T url m (d * 2) (tr @ [EvGet url, EvWarn429 d, EvSleep d])"
  by (simp add: retryRequest.simps)

lemma retry_stop [step_simps]:
  "get_reply T tr url = r \<Longrightarrow> \<not> (is_429 r \<and> 0 < n) \<Longrightarrow>
   retryRequest T url n d tr = (reply_result r, tr @ [EvGet url])"
  by (auto simp: retryRequest.simps reply_result_def is_429_def split: reply.splits)

text \<open>
  The shape of every run: \<open>k \<le> n\<close> rate-limited rounds, each answered by a 429, then one
  last GET whose reply decides the result; the last reply is a 429 only when the budget is
  spent.
\<close>

lemma retry_shape:
  "\<exists>k \<le> n. retryRequest T url n d tr =
       (reply_result (get_reply T (tr @ backoff_trace url d k) url),
        tr @ backoff_trace url d k @ [EvGet url])
     \<and> (\<forall>i < k. is_429 (get_reply T (tr @ backoff_trace url d i) url))
     \<and> (is_429 (get_reply T (tr @ backoff_trace url d k) url) \<longrightarrow> k = n)"
proof (induction n arbitrary: d tr)
  case 0
  show ?case by (rule exI [of _ 0]) (simp add: retry_stop)
next
  case (Suc m)
  show ?case
  proof (cases "is_429 (get_reply T tr url)")
    case False
    then show ?thesis by (intro exI [of _ 0]) (simp add: retry_stop)
  next
    case True
    then obtain b where r: "get_reply T tr url = Fail 429 b"
      by (auto simp: is_429_def split: reply.splits)
    let ?tr = "tr @ [EvGet url, EvWarn429 d, EvSleep d]"
    obtain k where "k \<le> m"
      and run: "retryRequest T url m (d * 2) ?tr =
         (reply_result (get_reply T (?tr @ backoff_trace url (d * 2) k) url),
          ?tr @ backoff_trace url (d * 2) k @ [EvGet url])"
      and before: "\<forall>i < k. is_429 (get_reply T (?tr @ backoff_trace url (d * 2) i) url)"
      and last: "is_429 (get_reply T (?tr @ backoff_trace url (d * 2) k) url) \<longrightarrow> k = m"
      using Suc.IH [of "d * 2" ?tr] by blast
    have "\<forall>i < Suc k. is_429 (get_reply T (tr @ backoff_trace url d i) url)"
    proof (intro allI impI)
      fix i assume "i < Suc k"
      then show "is_429 (get_reply T (tr @ backoff_trace url d i) url)"
        using True before by (cases i) (simp_all add: backoff_trace_Suc)
    qed
    then show ?thesis
      using \<open>k \<le> m\<close> run last r
      by (intro exI [of _ "Suc k"]) (simp add: retry_429 backoff_trace_Suc)
  qed
qed

lemma backoff_sleep_mono: "k \<le> n \<Longrightarrow> (d::nat) * (2 ^ k - 1) \<le> d * (2 ^ n - 1)"
proof -
  assume "k \<le> n"
  then have "(2::nat) ^ k \<le> 2 ^ n" by (rule power_increasing) simp
  then show ?thesis by (simp add: diff_le_mono)
qed

lemma throttled_reply:
  "get_reply (throttled k) h u =
     (if gets h < k then Fail 429 ''Too Many Requests'' else Ok \<lparr>products = Some [], link = None\<rparr>)"
  by (simp add: throttled_def)

section \<open>Properties\<close>

text \<open>
  C5 (spec P4). When the first \<open>k\<close> attempts of a run are answered with 429, \<open>k\<close> is
  within the retry budget, and attempt \<open>k + 1\<close> succeeds, the retrier returns that
  page after exactly \<open>k + 1\<close> GETs, with a warning and a sleep of \<open>d, 2d, 4d, \<dots>\<close>
  after each rate-limited attempt.
\<close>

theorem retry_succeeds_after_k:
  assumes "k \<le> n"
    and "\<forall>i < k. \<exists>b. get_reply T (tr @ backoff_trace url d i) url = Fail 429 b"
    and "get_reply T (tr @ backoff_trace url d k) url = Ok pg"
  shows "retryRequest T url n d tr = (Inr pg, tr @ backoff_trace url d k @ [EvGet url])"
proof -
  obtain j where "j \<le> n"
    and run: "retryRequest T url n d tr =
       (reply_result (get_reply T (tr @ backoff_trace url d j) url), tr @ backoff_trace url d j @ [EvGet url])"
    and before: "\<forall>i < j. is_429 (get_reply T (tr @ backoff_trace url d i) url)"
    and last: "is_429 (get_reply T (tr @ backoff_trace url d j) url) \<longrightarrow> j = n"
    using retry_shape by blast
  have "\<not> k < j" using before assms(3) by (auto simp: is_429_def)
  moreover have "\<not> j < k"
  proof
    assume "j < k"
    then have "is_429 (get_reply T (tr @ backoff_trace url d j) url)"
      using assms(2) by (auto simp: is_429_def)
    then show False using last \<open>j < k\<close> assms(1) by simp
  qed
  ultimately have "j = k" by simp
  then show ?thesis using run assms(3) by (simp add: reply_result_def)
qed

theorem retry_succeeds_after_k_witness:
  "get_reply (throttled 2) (backoff_trace ''products.json?limit=250'' 1000 0) ''products.json?limit=250''
       = Fail 429 ''Too Many Requests''
   \<and> get_reply (throttled 2) (backoff_trace ''products.json?limit=250'' 1000 1) ''products.json?limit=250''
       = Fail 429 ''Too Many Requests''
   \<and> get_reply (throttled 2) (backoff_trace ''products.json?limit=250'' 1000 2) ''products.json?limit=250''
       = Ok \<lparr>products = Some [], link = None\<rparr>
   \<and> retryRequest (throttled 2) ''products.json?limit=250'' 5 1000 [] =
       (Inr \<lparr>products = Some [], link = None\<rparr>,
        [EvGet ''products.json?limit=250'', EvWarn429 1000, EvSleep 1000,
         EvGet ''products.json?limit=250'', EvWarn429 2000, EvSleep 2000,
         EvGet ''products.json?limit=250''])"
proof -
  have h2: "\<forall>i < 2. \<exists>b. get_reply (throttled 2) ([] @ backoff_trace ''products.json?limit=250'' 1000 i) ''products.json?limit=250'' = Fail 429 b"
    by (auto simp: throttled_reply less_2_cases_iff)
  have h3: "get_reply (throttled 2) ([] @ backoff_trace ''products.json?limit=250'' 1000 2) ''products.json?limit=250''
       = Ok \<lparr>products = Some [], link = None\<rparr>"
    by (simp add: throttled_reply)
  have tr: "backoff_trace ''products.json?limit=250'' 1000 2 =
      [EvGet ''products.json?limit=250'', EvWarn429 1000, EvSleep 1000,
       EvGet ''products.json?limit=250'', EvWarn429 2000, EvSleep 2000]"
    by (simp add: backoff_trace_def upt_rec)
  have tr1: "backoff_trace ''products.json?limit=250'' 1000 1 =
      [EvGet ''products.json?limit=250'', EvWarn429 1000, EvSleep 1000]"
    by (simp add: backoff_trace_def)
  show ?thesis using retry_succeeds_after_k [of 2 5 _ "[]", OF _ h2 h3] h3 tr tr1
    by (simp add: throttled_reply)
qed

text \<open>
  C6 (spec P5). When every attempt of a run is answered with 429, the retrier makes
  exactly \<open>n + 1\<close> GETs (the first one and \<open>n\<close> retries) and then fails with the
  last 429 response.
\<close>

theorem retry_exhausted:
  assumes "\<forall>i \<le> n. \<exists>b. get_reply T (tr @ backoff_trace url d i) url = Fail 429 b"
  shows "\<exists>b. retryRequest T url n d tr = (Inl (HttpError 429 b), tr @ backoff_trace url d n @ [EvGet url])
             \<and> gets (backoff_trace url d n @ [EvGet url]) = Suc n"
proof -
  obtain j where "j \<le> n"
    and run: "retryRequest T url n d tr =
       (reply_result (get_reply T (tr @ backoff_trace url d j) url), tr @ backoff_trace url d j @ [EvGet url])"
    and last: "is_429 (get_reply T (tr @ backoff_trace url d j) url) \<longrightarrow> j = n"
    using retry_shape by blast
  obtain b where bj: "get_reply T (tr @ backoff_trace url d j) url = Fail 429 b"
    using assms \<open>j \<le> n\<close> by blast
  then have "j = n" using last by (simp add: is_429_def)
  then show ?thesis using run bj by (simp add: reply_result_def)
qed

theorem retry_exhausted_witness:
  "(\<exists>b. retryRequest (throttled 6) ''products.json?limit=250'' 5 1000 [] =
          (Inl (HttpError 429 b), [] @ backoff_trace ''products.json?limit=250'' 1000 5 @ [EvGet ''products.json?limit=250''])
        \<and> gets (backoff_trace ''products.json?limit=250'' 1000 5 @ [EvGet ''products.json?limit=250'']) = 6)"
proof -
  have h: "\<forall>i \<le> 5. \<exists>b. get_reply (throttled 6) ([] @ backoff_trace ''products.json?limit=250'' 1000 i) ''products.json?limit=250'' = Fail 429 b"
    by (simp add: throttled_reply)
  show ?thesis using h retry_exhausted [OF h] by simp
qed

text \<open>
  C12 (bounds). Whatever the server answers, one call of the retrier adds at least one and
  at most \<open>n + 1\<close> GETs, no write, and at most \<open>d (2\<^sup>n - 1)\<close> milliseconds of sleep to the
  history; with the defaults (\<open>n = 5\<close>, \<open>d = 1000\<close>) at most six GETs and 31 seconds.
\<close>

theorem retry_bounds:
  "\<exists>seg. snd (retryRequest T url n d tr) = tr @ seg
     \<and> 1 \<le> gets seg \<and> gets seg \<le> Suc n \<and> puts seg = 0 \<and> sleep_total seg \<le> d * (2 ^ n - 1)"
proof -
  obtain k r where "k \<le> n"
    and run: "retryRequest T url n d tr = (r, tr @ backoff_trace url d k @ [EvGet url])"
    using retry_shape [of n T url d tr] by blast
  have "sleep_total (backoff_trace url d k @ [EvGet url]) \<le> d * (2 ^ n - 1)"
    using backoff_sleep_mono [OF \<open>k \<le> n\<close>, of d] by simp
  then show ?thesis using run \<open>k \<le> n\<close>
    by (intro exI [of _ "backoff_trace url d k @ [EvGet url]"]) simp
qed

text \<open>
  C13 (spec 4.1, errors). A failure other than 429, or a request with no response, is not
  retried: the retrier fails after the one GET, with the status and body of the response.
\<close>

theorem retry_other_error_no_retry:
  assumes "get_reply T tr url = Fail status body" and "status \<noteq> 429"
  shows "retryRequest T url n d tr = (Inl (HttpError status body), tr @ [EvGet url])"
  using assms by (simp add: retry_stop is_429_def reply_result_def)

theorem retry_other_error_no_retry_witness:
  "get_reply (accept_all\<lparr>get_reply := (\<lambda>_ _. Fail 503 ''unavailable'')\<rparr>) [] ''products.json?limit=250'' = Fail 503 ''unavailable''
   \<and> (503::nat) \<noteq> 429
   \<and> retryRequest (accept_all\<lparr>get_reply := (\<lambda>_ _. Fail 503 ''unavailable'')\<rparr>) ''products.json?limit=250'' 5 1000 []
       = (Inl (HttpError 503 ''unavailable''), [EvGet ''products.json?limit=250''])"
proof -
  have h: "get_reply (accept_all\<lparr>get_reply := (\<lambda>_ _. Fail 503 ''unavailable'')\<rparr>) [] ''products.json?limit=250''
           = Fail 503 ''unavailable''" by simp
  show ?thesis using retry_other_error_no_retry [OF h] by simp
qed

end
