(* ===== verification/Link_Header.thy ===== *)
theory Link_Header
  imports Shop_Model
begin

text \<open>
  The continuation step of the pager (\<^verbatim>\<open>src/index.js\<close>, lines 49--57): the
  \<^verbatim>\<open>link\<close> header is matched against
  \<^verbatim>\<open>/<(.*page_info=([^>]*).*)>; rel="next"/\<close> and, when the second group is
  non-empty, the next path is \<^verbatim>\<open>products.json?limit=250&page_info=\<close> followed by it.
  The regular expression is modelled by its ECMAScript backtracking semantics: start
  positions from left to right, each greedy \<open>*\<close> trying its longest run first, the first
  successful match deciding the groups. \<open>.\<close> is every character but the line
  terminators (on Latin-1 characters: line feed and carriage return); \<open>[^>]\<close> is every
  character but \<open>>\<close>.
\<close>

section \<open>The regular expression\<close>

definition js_dot :: "char \<Rightarrow> bool" where
  "js_dot c \<longleftrightarrow> c \<noteq> CHR 0x0A \<and> c \<noteq> CHR 0x0D"

definition rel_next_lit :: string where
  \<open>rel_next_lit = ''>; rel="next"''\<close>

text \<open>\<^verbatim>\<open>.*>; rel="next"\<close> after the second group \<open>g\<close>: returns \<open>g\<close> on success.\<close>

definition after_cursor :: "string \<Rightarrow> string \<Rightarrow> string option" where
  "after_cursor g r =
     star_greedy js_dot r (\<lambda>_ r'. map_option (\<lambda>_. g) (match_lit rel_next_lit r'))"

text \<open>\<^verbatim>\<open>page_info=([^>]*).*>; rel="next"\<close>.\<close>

definition after_prefix :: "string \<Rightarrow> string option" where
  "after_prefix r =
     (case match_lit ''page_info='' r of
        None \<Rightarrow> None
      | Some r' \<Rightarrow> star_greedy (\<lambda>c. c \<noteq> CHR ''>'') r' after_cursor)"

text \<open>The whole pattern at one start position.\<close>

definition link_regex_at :: "string \<Rightarrow> string option" where
  "link_regex_at s =
     (case match_lit ''<'' s of
        None \<Rightarrow> None
      | Some r \<Rightarrow> star_greedy js_dot r (\<lambda>_ r'. after_prefix r'))"

text \<open>
  \<^verbatim>\<open>linkHeader.match(re)\<close> for a non-global pattern: the first start position
  \<open>0 \<dots> length\<close> at which the pattern matches; the result is \<^verbatim>\<open>match[2]\<close>.
\<close>

definition link_match :: "string \<Rightarrow> string option" where
  "link_match h = first_some link_regex_at (map (\<lambda>i. drop i h) [0..<Suc (length h)])"

section \<open>The next path\<close>

text \<open>
  \<^verbatim>\<open>if (!linkHeader) break;\<close> (a missing or empty header stops), then
  \<^verbatim>\<open>if (match && match[2]) url = ...; else break;\<close> (no match or an empty cursor
  stops).
\<close>

definition next_page_url :: "string option \<Rightarrow> string option" where
  "next_page_url linkHeader =
     (case linkHeader of
        None \<Rightarrow> None
      | Some h \<Rightarrow>
          if h = [] then None
          else (case link_match h of
                  None \<Rightarrow> None
                | Some pageInfo \<Rightarrow>
                    if pageInfo = [] then None
                    else Some (''products.json?limit=250&page_info='' @ pageInfo)))"

section \<open>Lemmas\<close>

lemma take_takeWhile_all: "i \<le> length (takeWhile P xs) \<Longrightarrow> \<forall>x \<in> set (take i xs). P x"
proof (induction xs arbitrary: i)
  case (Cons a xs)
  then show ?case by (cases i) (auto split: if_splits)
qed simp

lemma after_cursor_result: "after_cursor g r = Some z \<Longrightarrow> z = g"
  by (auto simp: after_cursor_def elim!: star_greedy_SomeE)

lemma after_cursor_rel_next: "after_cursor g (rel_next_lit @ t) = Some g"
  unfolding after_cursor_def by (rule star_greedy_const [where i = 0]) auto

lemma after_prefix_None:
  assumes "\<not> prefix ''page_info='' r"
  shows "after_prefix r = None"
proof -
  have "match_lit ''page_info='' r = None" using assms match_lit_None_iff by blast
  then show ?thesis by (simp add: after_prefix_def)
qed

text \<open>
  There is no \<open>p\<close> in \<open>age_info=\<close>: an occurrence of \<open>page_info=\<close> that starts
  inside another one (after its first character) starts after its end.
\<close>

lemma page_info_no_overlap:
  assumes "prefix ''page_info='' (drop j (''age_info='' @ z))"
  shows "sublist ''page_info='' z"
proof -
  define a where "a = ''age_info=''"
  have len: "length a = 9" and nop: "CHR ''p'' \<notin> set a" by (simp_all add: a_def)
  have pre: "prefix ''page_info='' (drop j (a @ z))" using assms by (simp add: a_def)
  show ?thesis
  proof (cases "j < 9")
    case True
    then have ne: "drop j a \<noteq> []" using len by simp
    have "drop j (a @ z) = drop j a @ z" using True len by simp
    with pre ne have "hd (drop j a) = CHR ''p''"
      by (cases "drop j a") (auto simp: prefix_def)
    moreover have "hd (drop j a) \<in> set a"
      using ne by (metis hd_in_set in_set_dropD)
    ultimately show ?thesis using nop by simp
  next
    case False
    then have "drop j (a @ z) = drop (j - 9) z" using len by simp
    with pre show ?thesis by (metis prefix_drop_sublist)
  qed
qed

lemma after_prefix_None_later:
  assumes "\<not> sublist ''page_info='' z" and "0 < j"
  shows "after_prefix (drop j (''page_info='' @ z)) = None"
proof -
  have "drop j (''page_info='' @ z) = drop (j - 1) (''age_info='' @ z)"
    using assms(2) by (cases j) simp_all
  then have "\<not> prefix ''page_info='' (drop j (''page_info='' @ z))"
    using assms(1) page_info_no_overlap by metis
  then show ?thesis by (rule after_prefix_None)
qed

lemma after_cursor_SomeD:
  assumes "after_cursor g r = Some z"
  shows "z = g \<and> (\<exists>w rest. r = w @ rel_next_lit @ rest \<and> (\<forall>x \<in> set w. js_dot x))"
proof -
  from assms obtain i where i: "i \<le> length (takeWhile js_dot r)"
    and k: "map_option (\<lambda>_. g) (match_lit rel_next_lit (drop i r)) = Some z"
    unfolding after_cursor_def by (rule star_greedy_SomeE)
  from k obtain rest where "drop i r = rel_next_lit @ rest" and "z = g" by auto
  moreover have "r = take i r @ drop i r" by simp
  moreover have "\<forall>x \<in> set (take i r). js_dot x" using i by (rule take_takeWhile_all)
  ultimately show ?thesis by metis
qed

lemma after_prefix_SomeD:
  assumes "after_prefix r = Some g"
  shows "\<exists>w rest. r = ''page_info='' @ g @ w @ rel_next_lit @ rest
           \<and> CHR ''>'' \<notin> set g \<and> (\<forall>x \<in> set w. js_dot x)"
proof -
  from assms obtain r' where r': "match_lit ''page_info='' r = Some r'"
    and sg: "star_greedy (\<lambda>c. c \<noteq> CHR ''>'') r' after_cursor = Some g"
    by (auto simp: after_prefix_def split: option.splits)
  from sg obtain i where i: "i \<le> length (takeWhile (\<lambda>c. c \<noteq> CHR ''>'') r')"
    and ac: "after_cursor (take i r') (drop i r') = Some g"
    by (rule star_greedy_SomeE)
  from ac have g: "g = take i r'" using after_cursor_SomeD by blast
  from ac obtain w rest where "drop i r' = w @ rel_next_lit @ rest" and "\<forall>x \<in> set w. js_dot x"
    using after_cursor_SomeD by blast
  moreover have "CHR ''>'' \<notin> set g" using take_takeWhile_all [OF i] g by auto
  moreover have "r = ''page_info='' @ take i r' @ drop i r'" using r' by simp
  ultimately show ?thesis using g by metis
qed

lemma link_regex_at_SomeD:
  assumes "link_regex_at s = Some g"
  shows "\<exists>u w rest. s = ''<'' @ u @ ''page_info='' @ g @ w @ rel_next_lit @ rest
           \<and> CHR ''>'' \<notin> set g \<and> (\<forall>x \<in> set (u @ w). js_dot x)"
proof -
  from assms obtain r where r: "match_lit ''<'' s = Some r"
    and sg: "star_greedy js_dot r (\<lambda>_ r'. after_prefix r') = Some g"
    by (auto simp: link_regex_at_def split: option.splits)
  from sg obtain i where i: "i \<le> length (takeWhile js_dot r)"
    and ap: "after_prefix (drop i r) = Some g"
    by (rule star_greedy_SomeE)
  have u: "\<forall>x \<in> set (take i r). js_dot x" using i by (rule take_takeWhile_all)
  obtain w rest where "drop i r = ''page_info='' @ g @ w @ rel_next_lit @ rest"
    and "CHR ''>'' \<notin> set g" and "\<forall>x \<in> set w. js_dot x"
    using after_prefix_SomeD [OF ap] by blast
  moreover have "s = ''<'' @ take i r @ drop i r" using r by simp
  ultimately show ?thesis using u by (metis UnE set_append)
qed

lemma prefix_char_in: "prefix p (xs @ y # ys) \<Longrightarrow> length xs < length p \<Longrightarrow> y \<in> set p"
  by (auto simp: prefix_def) (metis nth_append_length nth_append nth_mem)

text \<open>
  A later \<open>page_info=\<close> cannot start the match when it lies in text after the
  \<open>next\<close> entry that has no \<open>>; rel="next"\<close> of its own.
\<close>

lemma after_prefix_None_after:
  assumes c: "\<not> sublist ''page_info='' c" and t: "\<not> sublist rel_next_lit t" and "0 < j"
  shows "after_prefix (drop j (''page_info='' @ c @ rel_next_lit @ t)) = None"
proof (rule ccontr)
  let ?P = "''page_info=''" and ?R = rel_next_lit
  assume "after_prefix (drop j (?P @ c @ ?R @ t)) \<noteq> None"
  then obtain g where "after_prefix (drop j (?P @ c @ ?R @ t)) = Some g" by blast
  then obtain w rest where eq: "drop j (?P @ c @ ?R @ t) = ?P @ g @ w @ ?R @ rest"
    using after_prefix_SomeD by blast
  then have pre: "prefix ?P (drop j (?P @ c @ ?R @ t))" by simp
  have R: "?R = CHR ''>'' # tl ?R" and pR: "CHR ''p'' \<notin> set ?R" by (simp_all add: rel_next_lit_def)
  show False
  proof (cases "j < 10")
    case True
    have len: "j < length (?P @ c @ ?R @ t)" using True by simp
    have "prefix ?P (drop j (?P @ c @ ?R @ t))" by (rule pre)
    then have "drop j (?P @ c @ ?R @ t) ! 0 = CHR ''p''"
      by (auto simp: prefix_def)
    then have "(?P @ c @ ?R @ t) ! j = CHR ''p''" using len by simp
    moreover have "(?P @ c @ ?R @ t) ! j = ?P ! j" by (rule nth_append_left) (use True in simp)
    ultimately have "?P ! j = CHR ''p''" by simp
    moreover have "j \<in> {1, 2, 3, 4, 5, 6, 7, 8, 9}" using True \<open>0 < j\<close> by auto
    ultimately show False by auto
  next
    case False
    define k where "k = j - 10"
    have "drop j (?P @ c @ ?R @ t) = drop j ?P @ drop (j - length ?P) (c @ ?R @ t)" by (rule drop_append)
    moreover have "drop j ?P = []" using False by simp
    moreover have "j - length ?P = k" by (simp add: k_def)
    ultimately have dk: "drop j (?P @ c @ ?R @ t) = drop k (c @ ?R @ t)" by (simp only: append_Nil)
    show False
    proof (cases "k < length c")
      case kc: True
      have dc: "drop k (c @ ?R @ t) = drop k c @ ?R @ t" using kc by simp
      have p2: "prefix ?P (drop k c @ ?R @ t)" using pre dk dc by simp
      show False
      proof (cases "10 \<le> length (drop k c)")
        case True
        from p2 have "prefix ?P (drop k c) \<or> (\<exists>us. ?P = drop k c @ us)"
          by (simp only: prefix_append) blast
        moreover have "?P = drop k c @ us \<Longrightarrow> prefix ?P (drop k c)" for us
        proof -
          assume e: "?P = drop k c @ us"
          then have "length ?P = length (drop k c) + length us" by (metis length_append)
          then have "10 = length (drop k c) + length us" by simp
          then have "length us = 0" using True by linarith
          then have "us = []" by simp
          then show ?thesis using e by simp
        qed
        ultimately have "prefix ?P (drop k c)" by blast
        then show False using c prefix_drop_sublist by blast
      next
        case False
        have "?R @ t = CHR ''>'' # (tl ?R @ t)" by (simp add: rel_next_lit_def)
        then have "prefix ?P (drop k c @ CHR ''>'' # (tl ?R @ t))" using p2 by (simp only:)
        then have "CHR ''>'' \<in> set ?P" by (rule prefix_char_in) (use False in simp)
        then show False by simp
      qed
    next
      case ck: False
      show False
      proof (cases "k < length c + length ?R")
        case True
        then have "drop k (c @ ?R @ t) = drop (k - length c) ?R @ t" using ck by simp
        moreover have "drop (k - length c) ?R \<noteq> []" using True ck by simp
        ultimately have "hd (drop (k - length c) ?R) = CHR ''p''" using pre dk
          by (cases "drop (k - length c) ?R") (auto simp: prefix_def)
        moreover have "hd (drop (k - length c) ?R) \<in> set ?R"
          using \<open>drop (k - length c) ?R \<noteq> []\<close> by (metis hd_in_set in_set_dropD)
        ultimately show False using pR by simp
      next
        case False
        then have "drop k (c @ ?R @ t) = drop (k - length c - length ?R) t" using ck by simp
        then have "drop (k - length c - length ?R) t = ?P @ g @ w @ ?R @ rest" using eq dk by simp
        then have "drop (k - length c - length ?R) t = (?P @ g @ w) @ ?R @ rest" by simp
        then have "sublist ?R (drop (k - length c - length ?R) t)" by (metis sublist_appendI)
        moreover have "sublist (drop (k - length c - length ?R) t) t" by (rule suffix_imp_sublist) (rule suffix_drop)
        ultimately show False using t sublist_order.order.trans by blast
      qed
    qed
  qed
qed

text \<open>
  The match starts at the first \<open>page_info=\<close> after which no later one can start it:
  the cursor \<open>c\<close> of that entry is extracted.
\<close>

lemma after_cursor_gap: "\<forall>x \<in> set w. js_dot x \<Longrightarrow> after_cursor g (w @ rel_next_lit @ t) = Some g"
  unfolding after_cursor_def
  by (rule star_greedy_const [where i = "length w"]) (auto simp: takeWhile_append_all)

lemma link_match_first_cursor:
  assumes u: "\<forall>x \<in> set u. js_dot x"
    and c: "CHR ''>'' \<notin> set c"
    and w: "\<forall>x \<in> set w. js_dot x" and hw: "w = [] \<or> hd w = CHR ''>''"
    and later: "\<And>j. 0 < j \<Longrightarrow> after_prefix (drop j (''page_info='' @ c @ w @ rel_next_lit @ t)) = None"
  shows "link_match (''<'' @ u @ ''page_info='' @ c @ w @ rel_next_lit @ t) = Some c"
proof -
  let ?z = "c @ w @ rel_next_lit @ t"
  let ?r = "u @ ''page_info='' @ ?z"
  have gt: "w @ rel_next_lit @ t = CHR ''>'' # tl (w @ rel_next_lit @ t)"
    using hw by (cases w) (auto simp: rel_next_lit_def)
  have tw: "length (takeWhile (\<lambda>x. x \<noteq> CHR ''>'') ?z) = length c"
    using c takeWhile_length_stop [of "\<lambda>x. x \<noteq> CHR ''>''" "CHR ''>''" c] gt
    by (metis append_Cons)
  have "star_greedy (\<lambda>x. x \<noteq> CHR ''>'') ?z after_cursor = Some c"
    by (rule star_greedy_pick [where i = "length c"]) (use tw w in \<open>auto simp: after_cursor_gap\<close>)
  moreover have "match_lit ''page_info='' (''page_info='' @ ?z) = Some ?z" by (rule match_lit_append)
  ultimately have ap: "after_prefix (''page_info='' @ ?z) = Some c"
    by (simp only: after_prefix_def option.case)
  have "star_greedy js_dot ?r (\<lambda>_ r'. after_prefix r') = Some c"
  proof (rule star_greedy_pick [where i = "length u"])
    show "length u \<le> length (takeWhile js_dot ?r)" using u by (rule takeWhile_append_all)
    show "after_prefix (drop (length u) ?r) = Some c" using ap by simp
    show "\<forall>j. length u < j \<and> j \<le> length (takeWhile js_dot ?r) \<longrightarrow> after_prefix (drop j ?r) = None"
    proof (intro allI impI)
      fix j assume "length u < j \<and> j \<le> length (takeWhile js_dot ?r)"
      then have "drop j ?r = drop (j - length u) (''page_info='' @ ?z)" and "0 < j - length u"
        by simp_all
      then show "after_prefix (drop j ?r) = None" using later by simp
    qed
  qed
  moreover have "match_lit ''<'' (''<'' @ ?r) = Some ?r" by (rule match_lit_append)
  ultimately have at: "link_regex_at (''<'' @ ?r) = Some c"
    by (simp only: link_regex_at_def option.case)
  have "[0..<Suc (length (''<'' @ ?r))] = 0 # [Suc 0..<Suc (length (''<'' @ ?r))]"
    by (rule upt_conv_Cons [OF zero_less_Suc])
  then show ?thesis using at by (simp only: link_match_def list.map drop_0 first_some.simps option.case)
qed

text \<open>
  The cursor after the last \<open>page_info=\<close> of the header is extracted, whatever lies
  between it and the \<open>>; rel="next"\<close> that closes the match (the rest of another entry
  included), as long as it has no line break and starts with \<open>>\<close>.
\<close>

lemma link_match_last_gap:
  assumes "\<forall>x \<in> set u. js_dot x" and "CHR ''>'' \<notin> set c"
    and "\<forall>x \<in> set w. js_dot x" and "w = [] \<or> hd w = CHR ''>''"
    and "\<not> sublist ''page_info='' (c @ w @ rel_next_lit @ t)"
  shows "link_match (''<'' @ u @ ''page_info='' @ c @ w @ rel_next_lit @ t) = Some c"
  using assms(1-4) after_prefix_None_later [OF assms(5)] by (rule link_match_first_cursor)

lemma link_match_last_page_info:
  assumes "\<forall>x \<in> set u. js_dot x" and "CHR ''>'' \<notin> set c"
    and "\<not> sublist ''page_info='' (c @ rel_next_lit @ t)"
  shows "link_match (''<'' @ u @ ''page_info='' @ c @ rel_next_lit @ t) = Some c"
  using link_match_last_gap [of u c "[]" t] assms by simp

lemma link_match_next_entry:
  assumes "\<forall>x \<in> set u. js_dot x" and "CHR ''>'' \<notin> set c"
    and "\<not> sublist ''page_info='' c" and "\<not> sublist rel_next_lit t"
  shows "link_match (''<'' @ u @ ''page_info='' @ c @ rel_next_lit @ t) = Some c"
  using link_match_first_cursor [of u c "[]" t] assms(1,2) after_prefix_None_after [OF assms(3,4)] by simp

lemma no_rel_next:
  assumes "CHR ''>'' \<notin> set a" and "CHR ''>'' \<notin> set b" and \<open>\<not> prefix ''; rel="next"'' b\<close>
  shows "\<not> sublist rel_next_lit (a @ CHR ''>'' # b)"
proof
  define t where \<open>t = ''; rel="next"''\<close>
  have rel: "rel_next_lit = CHR ''>'' # t" by (simp add: rel_next_lit_def t_def)
  assume "sublist rel_next_lit (a @ CHR ''>'' # b)"
  then have "prefix t b" using sublist_at_unique [OF assms(1,2)] by (simp only: rel)
  then show False using assms(3) by (simp add: t_def)
qed

lemma link_match_SomeD:
  assumes "link_match h = Some g"
  shows "\<exists>a u w rest. h = a @ ''<'' @ u @ ''page_info='' @ g @ w @ rel_next_lit @ rest
           \<and> CHR ''>'' \<notin> set g \<and> (\<forall>x \<in> set (u @ w). js_dot x)"
proof -
  from assms obtain s where "s \<in> set (map (\<lambda>i. drop i h) [0..<Suc (length h)])"
    and at: "link_regex_at s = Some g"
    unfolding link_match_def by (rule first_some_SomeE)
  then obtain i where s: "s = drop i h" by (auto simp del: upt_Suc)
  have "h = take i h @ s" using s by simp
  then show ?thesis using link_regex_at_SomeD [OF at] by metis
qed

lemma link_match_needs_rel_next:
  assumes "\<not> sublist rel_next_lit h"
  shows "link_match h = None"
proof (rule ccontr)
  assume "link_match h \<noteq> None"
  then obtain g where "link_match h = Some g" by blast
  then obtain a u w rest where "h = a @ ''<'' @ u @ ''page_info='' @ g @ w @ rel_next_lit @ rest"
    using link_match_SomeD by blast
  then have "h = (a @ ''<'' @ u @ ''page_info='' @ g @ w) @ rel_next_lit @ rest" by simp
  then have "sublist rel_next_lit h" unfolding sublist_def by blast
  then show False using assms by contradiction
qed

section \<open>Properties\<close>

text \<open>
  C8 (spec P7). For a header \<open><u page_info=c>; rel="next"t\<close> in which \<open>u\<close> has no line
  break, the cursor \<open>c\<close> is non-empty and has no \<open>>\<close>, and this \<open>page_info=\<close> is the
  last one of the header, the next request is \<^verbatim>\<open>products.json?limit=250&page_info=\<close>
  followed by \<open>c\<close>.
\<close>

theorem next_page_url_cursor:
  assumes "\<forall>x \<in> set u. js_dot x" and "CHR ''>'' \<notin> set c" and "c \<noteq> []"
    and "\<not> sublist ''page_info='' (c @ rel_next_lit @ t)"
  shows "next_page_url (Some (''<'' @ u @ ''page_info='' @ c @ rel_next_lit @ t))
         = Some (''products.json?limit=250&page_info='' @ c)"
proof -
  have "link_match (''<'' @ u @ ''page_info='' @ c @ rel_next_lit @ t) = Some c"
    using assms(1,2,4) by (rule link_match_last_page_info)
  then show ?thesis using assms(3) by (simp add: next_page_url_def)
qed

theorem next_page_url_cursor_witness:
  \<open>\<not> sublist ''page_info='' (''ABC123'' @ rel_next_lit @ [])
   \<and> next_page_url (Some ''<https://x/products.json?limit=250&page_info=ABC123>; rel="next"'')
     = Some ''products.json?limit=250&page_info=ABC123''\<close>
proof -
  have u: "\<forall>x \<in> set ''https://x/products.json?limit=250&''. js_dot x" by (simp add: js_dot_def)
  have c: "CHR ''>'' \<notin> set ''ABC123''" and ne: "''ABC123'' \<noteq> []" by simp_all
  have l: "\<not> sublist ''page_info='' (''ABC123'' @ rel_next_lit @ [])"
    by (simp add: str_includes_sublist [symmetric] rel_next_lit_def)
  have h: \<open>''<'' @ ''https://x/products.json?limit=250&'' @ ''page_info='' @ ''ABC123'' @ rel_next_lit @ []
          = ''<https://x/products.json?limit=250&page_info=ABC123>; rel="next"''\<close>
    by (simp add: rel_next_lit_def)
  show ?thesis using u c ne l next_page_url_cursor [OF u c ne l] h by simp
qed

text \<open>
  C14 (soundness of the match). Whatever cursor the pattern extracts lies, in the header,
  between a \<open><\<close> and a later \<open>>; rel="next"\<close>, right after a \<open>page_info=\<close>, and
  contains no \<open>>\<close>; the text the two \<open>.*\<close> cross has no line break.
\<close>

theorem link_match_sound:
  assumes "link_match h = Some g"
  shows "\<exists>a u w rest. h = a @ ''<'' @ u @ ''page_info='' @ g @ w @ rel_next_lit @ rest
           \<and> CHR ''>'' \<notin> set g \<and> (\<forall>x \<in> set (u @ w). js_dot x)"
  using assms by (rule link_match_SomeD)

theorem link_match_sound_witness:
  \<open>link_match ''<https://x/products.json?limit=250&page_info=ABC123>; rel="next"'' = Some ''ABC123''
   \<and> (\<exists>a u w rest. ''<https://x/products.json?limit=250&page_info=ABC123>; rel="next"''
          = a @ ''<'' @ u @ ''page_info='' @ ''ABC123'' @ w @ rel_next_lit @ rest
        \<and> CHR ''>'' \<notin> set ''ABC123'')\<close>
proof -
  have m: \<open>link_match ''<https://x/products.json?limit=250&page_info=ABC123>; rel="next"'' = Some ''ABC123''\<close>
    by code_simp
  show ?thesis using m link_match_sound [OF m] by blast
qed

end
