(* ===== verification/Reorder.thy ===== *)
theory Reorder
  imports Shop_Model
begin

text \<open>
  The variant reorder policy (\<^verbatim>\<open>src/index.js\<close>, lines 63--88):
  \<^verbatim>\<open>checkAndReorderVariants\<close> finds the first variant whose lower-cased title contains
  \<open>sample\<close> and the first whose contains \<open>bolt\<close>; when both exist and the sample
  variant's position is smaller, it writes the bolt variant to the sample's position,
  sleeps, writes the sample variant to the bolt's position and sleeps again
  (\<^verbatim>\<open>updateVariantPosition\<close>, an unretried PUT). The store semantics of the PUT
  (spec section 6: the variant's position becomes the new value) gives the abstract
  effect, \<open>reorder_spec\<close>, that the code refines.
\<close>

section \<open>Definitions\<close>

text \<open>\<^verbatim>\<open>variants.find(v => v.title.toLowerCase().includes(kw))\<close>.\<close>

definition matches_kw :: "string \<Rightarrow> variant \<Rightarrow> bool" where
  "matches_kw kw v = str_includes (toLowerCase (vtitle v)) kw"

definition find_variant :: "string \<Rightarrow> variant list \<Rightarrow> variant option" where
  "find_variant kw vs = find (matches_kw kw) vs"

text \<open>\<^verbatim>\<open>await apiClient.put(`variants/${variantId}.json`, ...)\<close>: no retry.\<close>

definition updateVariantPosition :: "transport \<Rightarrow> nat \<Rightarrow> int \<Rightarrow> event list \<Rightarrow> unit outcome" where
  "updateVariantPosition T variantId newPosition tr =
     (let tr' = tr @ [EvPut variantId newPosition] in
      case put_reply T tr variantId newPosition of
        Ok _ \<Rightarrow> (Inr (), tr')
      | Fail status body \<Rightarrow> (Inl (HttpError status body), tr')
      | NoResponse \<Rightarrow> (Inl NetworkError, tr'))"

definition checkAndReorderVariants :: "transport \<Rightarrow> product \<Rightarrow> event list \<Rightarrow> unit outcome" where
  "checkAndReorderVariants T product tr =
     (let vs = variants product;
          sampleVariant = find_variant ''sample'' vs;
          boltVariant = find_variant ''bolt'' vs
      in case (sampleVariant, boltVariant) of
           (Some s, Some b) \<Rightarrow>
             if position s < position b then
               (case updateVariantPosition T (vid b) (position s)
                       (tr @ [EvReorder (pid product) (ptitle product) (position s) (position b)]) of
                  (Inl e, tr1) \<Rightarrow> (Inl e, tr1)
                | (Inr _, tr1) \<Rightarrow>
                    (case updateVariantPosition T (vid s) (position b) (sleep 1000 tr1) of
                       (Inl e, tr2) \<Rightarrow> (Inl e, tr2)
                     | (Inr _, tr2) \<Rightarrow> (Inr (), sleep 1000 tr2 @ [EvReorderDone])))
             else (Inr (), tr)
         | _ \<Rightarrow> (Inr (), tr))"

subsection \<open>The store and the abstract effect\<close>

text \<open>The positions the store holds for a product, by variant id.\<close>

type_synonym positions = "nat \<Rightarrow> int option"

definition positions_of :: "variant list \<Rightarrow> positions" where
  "positions_of vs = map_of (map (\<lambda>v. (vid v, position v)) vs)"

fun apply_put :: "positions \<Rightarrow> event \<Rightarrow> positions" where
  "apply_put st (EvPut v p) = st(v \<mapsto> p)"
| "apply_put st _ = st"

definition apply_writes :: "positions \<Rightarrow> event list \<Rightarrow> positions" where
  "apply_writes st es = foldl apply_put st es"

text \<open>
  The contract of the policy (spec 4.3, P1--P3): when the first sample variant precedes
  the first bolt variant, their positions are exchanged; nothing else changes.
\<close>

definition swap_positions :: "variant \<Rightarrow> variant \<Rightarrow> variant list \<Rightarrow> variant list" where
  "swap_positions s b vs =
     map (\<lambda>v. if vid v = vid b then v\<lparr>position := position s\<rparr>
              else if vid v = vid s then v\<lparr>position := position b\<rparr> else v) vs"

definition reorder_spec :: "variant list \<Rightarrow> variant list" where
  "reorder_spec vs =
     (case (find_variant ''sample'' vs, find_variant ''bolt'' vs) of
        (Some s, Some b) \<Rightarrow> if position s < position b then swap_positions s b vs else vs
      | _ \<Rightarrow> vs)"

text \<open>Variant ids are unique within a product (the store's key).\<close>

definition wf_variants :: "variant list \<Rightarrow> bool" where
  "wf_variants vs \<longleftrightarrow> distinct (map vid vs)"

text \<open>The product of the end-to-end scenario of the spec (section 8).\<close>

definition spec_widget :: product where
  "spec_widget =
     \<lparr>pid = 1, ptitle = ''Widget'',
      variants = [\<lparr>vid = 10, vtitle = ''Sample'', position = 1\<rparr>,
                  \<lparr>vid = 11, vtitle = ''Bolt'', position = 2\<rparr>]\<rparr>"

text \<open>Stores that refuse the write to variant 10, and every write, with a 500 and a 429.\<close>

definition reject_10 :: transport where
  "reject_10 = accept_all\<lparr>put_reply := (\<lambda>_ v _. if v = 10 then Fail 500 ''error'' else Ok ())\<rparr>"

definition reject_all :: transport where
  "reject_all = accept_all\<lparr>put_reply := (\<lambda>_ _ _. Fail 429 ''Too Many Requests'')\<rparr>"

text \<open>What the policy reads of a variant once titles are lower-cased.\<close>

definition case_key :: "variant \<Rightarrow> nat \<times> string \<times> int" where
  "case_key v = (vid v, toLowerCase (vtitle v), position v)"

section \<open>Lemmas\<close>

lemma update_Ok [step_simps]:
  "put_reply T tr v p = Ok u \<Longrightarrow> updateVariantPosition T v p tr = (Inr (), tr @ [EvPut v p])"
  by (simp add: updateVariantPosition_def)

lemma update_not_Ok:
  "\<forall>u. put_reply T tr v p \<noteq> Ok u \<Longrightarrow>
   \<exists>e. updateVariantPosition T v p tr = (Inl e, tr @ [EvPut v p])"
  by (auto simp: updateVariantPosition_def Let_def split: reply.splits)

lemma update_result:
  "updateVariantPosition T v p tr = (r, tr') \<Longrightarrow>
   tr' = tr @ [EvPut v p] \<and> (isl r \<longleftrightarrow> (\<forall>u. put_reply T tr v p \<noteq> Ok u))"
  by (auto simp: updateVariantPosition_def Let_def split: reply.splits)

lemma find_variant_SomeD:
  "find_variant kw vs = Some v \<Longrightarrow> v \<in> set vs \<and> matches_kw kw v"
  by (auto simp: find_variant_def find_Some_iff)

lemma positions_of_vid:
  "wf_variants vs \<Longrightarrow> v \<in> set vs \<Longrightarrow> positions_of vs (vid v) = Some (position v)"
  by (induction vs) (auto simp: positions_of_def wf_variants_def image_iff)

lemma positions_of_swap:
  "positions_of (swap_positions s b vs) =
     (\<lambda>i. if i = vid b then map_option (\<lambda>_. position s) (positions_of vs i)
          else if i = vid s then map_option (\<lambda>_. position b) (positions_of vs i)
          else positions_of vs i)"
  by (induction vs) (auto simp: positions_of_def swap_positions_def fun_eq_iff)

lemma wf_vid_inj: "wf_variants vs \<Longrightarrow> v \<in> set vs \<Longrightarrow> w \<in> set vs \<Longrightarrow> vid v = vid w \<Longrightarrow> v = w"
  by (auto simp: wf_variants_def distinct_map inj_on_def)

text \<open>The two writes of a swap, applied to the store, give the abstract swap.\<close>

lemma writes_swap:
  assumes "wf_variants vs" and "s \<in> set vs" and "b \<in> set vs" and "position s < position b"
  shows "apply_writes (positions_of vs)
           [EvReorder i t (position s) (position b), EvPut (vid b) (position s), EvSleep 1000,
            EvPut (vid s) (position b), EvSleep 1000, EvReorderDone]
         = positions_of (swap_positions s b vs)"
proof -
  have "vid s \<noteq> vid b" using assms wf_vid_inj by fastforce
  then show ?thesis
    using assms by (auto simp: apply_writes_def positions_of_swap positions_of_vid fun_eq_iff)
qed

text \<open>
  The search for a keyword sees titles only through \<open>toLowerCase\<close>: on two lists that
  agree up to the case of their titles it finds variants with the same id and position.
\<close>

lemma find_variant_case:
  "map case_key vs = map case_key vs' \<Longrightarrow>
   map_option (\<lambda>v. (vid v, position v)) (find_variant kw vs) = map_option (\<lambda>v. (vid v, position v)) (find_variant kw vs')"
proof (induction vs arbitrary: vs')
  case Nil
  then show ?case by (simp add: find_variant_def)
next
  case (Cons v vs)
  then obtain v' ws where vs': "vs' = v' # ws" and k: "case_key v = case_key v'" and r: "map case_key vs = map case_key ws"
    by (cases vs') auto
  then have "matches_kw kw v = matches_kw kw v'" by (simp add: case_key_def matches_kw_def)
  then show ?case using Cons.IH [OF r] k vs' by (simp add: find_variant_def case_key_def)
qed

lemmas check_unfold = checkAndReorderVariants_def Let_def updateVariantPosition_def

lemma check_swap [step_simps]:
  assumes "find_variant ''sample'' (variants p) = Some s" "find_variant ''bolt'' (variants p) = Some b"
    "position s < position b"
    "put_reply T (tr @ [EvReorder (pid p) (ptitle p) (position s) (position b)]) (vid b) (position s) = Ok u1"
    "put_reply T (tr @ [EvReorder (pid p) (ptitle p) (position s) (position b),
                        EvPut (vid b) (position s), EvSleep 1000]) (vid s) (position b) = Ok u2"
  shows "checkAndReorderVariants T p tr =
           (Inr (), tr @ [EvReorder (pid p) (ptitle p) (position s) (position b),
                          EvPut (vid b) (position s), EvSleep 1000,
                          EvPut (vid s) (position b), EvSleep 1000, EvReorderDone])"
  using assms by (simp add: check_unfold)

lemma check_first_fail:
  assumes "find_variant ''sample'' (variants p) = Some s" "find_variant ''bolt'' (variants p) = Some b"
    "position s < position b"
    "\<forall>u. put_reply T (tr @ [EvReorder (pid p) (ptitle p) (position s) (position b)]) (vid b) (position s) \<noteq> Ok u"
  shows "\<exists>e. checkAndReorderVariants T p tr =
           (Inl e, tr @ [EvReorder (pid p) (ptitle p) (position s) (position b), EvPut (vid b) (position s)])"
  using assms by (auto simp: check_unfold split: reply.splits)

lemma check_second_fail:
  assumes "find_variant ''sample'' (variants p) = Some s" "find_variant ''bolt'' (variants p) = Some b"
    "position s < position b"
    "put_reply T (tr @ [EvReorder (pid p) (ptitle p) (position s) (position b)]) (vid b) (position s) = Ok u1"
    "\<forall>u. put_reply T (tr @ [EvReorder (pid p) (ptitle p) (position s) (position b),
                        EvPut (vid b) (position s), EvSleep 1000]) (vid s) (position b) \<noteq> Ok u"
  shows "\<exists>e. checkAndReorderVariants T p tr =
           (Inl e, tr @ [EvReorder (pid p) (ptitle p) (position s) (position b),
                         EvPut (vid b) (position s), EvSleep 1000, EvPut (vid s) (position b)])"
  using assms by (auto simp: check_unfold split: reply.splits)

text \<open>Every run of the policy is one of its four branches.\<close>

lemma check_cases:
  assumes run: "checkAndReorderVariants T p tr = (r, tr')"
  obtains (noop) "r = Inr ()" "tr' = tr" "reorder_spec (variants p) = variants p"
  | (swap) s b where "find_variant ''sample'' (variants p) = Some s"
      "find_variant ''bolt'' (variants p) = Some b" "position s < position b" "r = Inr ()"
      "tr' = tr @ [EvReorder (pid p) (ptitle p) (position s) (position b),
                   EvPut (vid b) (position s), EvSleep 1000,
                   EvPut (vid s) (position b), EvSleep 1000, EvReorderDone]"
  | (fail1) s b :: variant and e :: http_error where "r = Inl e"
      "tr' = tr @ [EvReorder (pid p) (ptitle p) (position s) (position b), EvPut (vid b) (position s)]"
  | (fail2) s b :: variant and e :: http_error where "r = Inl e"
      "tr' = tr @ [EvReorder (pid p) (ptitle p) (position s) (position b),
                   EvPut (vid b) (position s), EvSleep 1000, EvPut (vid s) (position b)]"
proof (cases "find_variant ''sample'' (variants p) = None \<or> find_variant ''bolt'' (variants p) = None")
  case True
  then show ?thesis using run noop by (auto simp: check_unfold reorder_spec_def split: option.splits)
next
  case False
  then obtain s b where fs: "find_variant ''sample'' (variants p) = Some s"
    and fb: "find_variant ''bolt'' (variants p) = Some b" by auto
  let ?tr1 = "tr @ [EvReorder (pid p) (ptitle p) (position s) (position b)]"
  let ?tr2 = "?tr1 @ [EvPut (vid b) (position s), EvSleep 1000]"
  show ?thesis
  proof (cases "position s < position b")
    case False
    then show ?thesis using run noop fs fb by (simp add: check_unfold reorder_spec_def)
  next
    case lt: True
    show ?thesis
    proof (cases "\<exists>u. put_reply T ?tr1 (vid b) (position s) = Ok u")
      case False
      then obtain e where "checkAndReorderVariants T p tr = (Inl e, ?tr1 @ [EvPut (vid b) (position s)])"
        using check_first_fail [OF fs fb lt] by auto
      then show ?thesis using run fail1 [of e s b] by simp
    next
      case True
      then obtain u1 where u1: "put_reply T ?tr1 (vid b) (position s) = Ok u1" by blast
      show ?thesis
      proof (cases "\<exists>u. put_reply T ?tr2 (vid s) (position b) = Ok u")
        case False
        then obtain e where "checkAndReorderVariants T p tr = (Inl e, ?tr2 @ [EvPut (vid s) (position b)])"
          using check_second_fail [OF fs fb lt u1] by auto
        then show ?thesis using run fail2 [of e s b] by simp
      next
        case True
        then obtain u2 where u2: "put_reply T ?tr2 (vid s) (position b) = Ok u2" by blast
        show ?thesis using check_swap [OF fs fb lt u1] u2 run swap [OF fs fb lt] by simp
      qed
    qed
  qed
qed


subsection \<open>Shared lemmas of the properties\<close>

lemma swap_positions_vids: "map vid (swap_positions s b vs) = map vid vs"
  by (induction vs) (auto simp: swap_positions_def)

lemma dom_positions_of: "dom (positions_of vs) = vid ` set vs"
  by (simp add: positions_of_def dom_map_of_conv_image_fst image_image)

lemma positions_of_inj:
  assumes "wf_variants vs" and "distinct (map position vs)"
  shows "inj_on (positions_of vs) (dom (positions_of vs))"
proof (rule inj_onI)
  fix i j assume "i \<in> dom (positions_of vs)" "j \<in> dom (positions_of vs)"
    and eq: "positions_of vs i = positions_of vs j"
  then obtain v w where v: "v \<in> set vs" "i = vid v" and w: "w \<in> set vs" "j = vid w"
    by (auto simp: dom_positions_of)
  then have "position v = position w" using eq assms(1) by (simp add: positions_of_vid)
  then have "v = w" using v w assms(2) by (auto simp: distinct_map inj_on_def)
  then show "i = j" using v w by simp
qed

lemma swap_positions_distinct:
  assumes "wf_variants vs" "s \<in> set vs" "b \<in> set vs" "position s < position b"
    and "distinct (map position vs)"
  shows "distinct (map position (swap_positions s b vs))"
proof -
  let ?f = "\<lambda>v. if vid v = vid b then v\<lparr>position := position s\<rparr>
                else if vid v = vid s then v\<lparr>position := position b\<rparr> else v"
  have sb: "vid s \<noteq> vid b" using assms wf_vid_inj by fastforce
  have "inj_on (position \<circ> ?f) (set vs)"
  proof (rule inj_onI)
    fix v w assume v: "v \<in> set vs" and w: "w \<in> set vs" and eq: "(position \<circ> ?f) v = (position \<circ> ?f) w"
    have pinj: "\<And>x y. x \<in> set vs \<Longrightarrow> y \<in> set vs \<Longrightarrow> position x = position y \<Longrightarrow> x = y"
      using assms(5) by (auto simp: distinct_map inj_on_def)
    have vinj: "\<And>x y. x \<in> set vs \<Longrightarrow> y \<in> set vs \<Longrightarrow> vid x = vid y \<Longrightarrow> x = y"
      using assms(1) wf_vid_inj by blast
    show "v = w"
      using eq sb v w assms(2,3,4) pinj vinj by (auto split: if_splits)
  qed
  moreover have "distinct vs" using assms(1) by (simp add: wf_variants_def distinct_map)
  ultimately show ?thesis by (simp add: swap_positions_def distinct_map)
qed

lemma widget_sample: "find_variant ''sample'' (variants spec_widget) = Some \<lparr>vid = 10, vtitle = ''Sample'', position = 1\<rparr>"
  by code_simp

lemma widget_bolt: "find_variant ''bolt'' (variants spec_widget) = Some \<lparr>vid = 11, vtitle = ''Bolt'', position = 2\<rparr>"
  by code_simp

section \<open>Properties\<close>

text \<open>
  C3 (spec P1). When the product has no variant whose lower-cased title contains \<open>sample\<close>, or none whose contains \<open>bolt\<close>, the policy returns normally and issues no request and no log line: the history is unchanged.
\<close>
theorem reorder_noop_unmatched:
  assumes "find_variant ''sample'' (variants p) = None \<or> find_variant ''bolt'' (variants p) = None"
  shows "checkAndReorderVariants T p tr = (Inr (), tr)"
  using assms by (auto simp: check_unfold split: option.splits)

theorem reorder_noop_unmatched_witness:
  "find_variant ''bolt'' (variants (spec_widget\<lparr>variants := [\<lparr>vid = 10, vtitle = ''Sample'', position = 1\<rparr>]\<rparr>)) = None
   \<and> checkAndReorderVariants accept_all (spec_widget\<lparr>variants := [\<lparr>vid = 10, vtitle = ''Sample'', position = 1\<rparr>]\<rparr>) [] = (Inr (), [])"
proof -
  have h: "find_variant ''bolt'' (variants (spec_widget\<lparr>variants := [\<lparr>vid = 10, vtitle = ''Sample'', position = 1\<rparr>]\<rparr>)) = None"
    by code_simp
  show ?thesis using h reorder_noop_unmatched [OF disjI2 [OF h]] by simp
qed

text \<open>
  C1 (spec P3, as a refinement). When the policy returns normally on a product whose variant ids are unique, the writes it issued, applied to the store in order, leave exactly the positions of the abstract policy \<open>reorder_spec\<close>: the first sample and first bolt variant exchange positions when the sample one came first, and every other position is unchanged.
\<close>
theorem reorder_refines_spec:
  assumes "wf_variants (variants p)"
    and "checkAndReorderVariants T p tr = (Inr (), tr')"
  shows "apply_writes (positions_of (variants p)) (drop (length tr) tr') = positions_of (reorder_spec (variants p))"
  using assms(2)
proof (cases rule: check_cases)
  case noop
  then show ?thesis by (simp add: apply_writes_def)
next
  case (swap s b)
  then have "s \<in> set (variants p)" "b \<in> set (variants p)" by (auto dest: find_variant_SomeD)
  then show ?thesis using swap assms(1) writes_swap by (simp add: reorder_spec_def)
next
  case fail1
  then show ?thesis by simp
next
  case fail2
  then show ?thesis by simp
qed


theorem reorder_refines_spec_witness:
  "wf_variants (variants spec_widget)
   \<and> checkAndReorderVariants accept_all spec_widget [] =
       (Inr (), [EvReorder 1 ''Widget'' 1 2, EvPut 11 1, EvSleep 1000, EvPut 10 2, EvSleep 1000, EvReorderDone])
   \<and> apply_writes (positions_of (variants spec_widget)) [EvReorder 1 ''Widget'' 1 2, EvPut 11 1, EvSleep 1000, EvPut 10 2, EvSleep 1000, EvReorderDone]
     = positions_of (reorder_spec (variants spec_widget))"
proof -
  have wf: "wf_variants (variants spec_widget)" by (simp add: wf_variants_def spec_widget_def)
  have run: "checkAndReorderVariants accept_all spec_widget [] =
       (Inr (), [EvReorder 1 ''Widget'' 1 2, EvPut 11 1, EvSleep 1000, EvPut 10 2, EvSleep 1000, EvReorderDone])"
  proof -
    have "checkAndReorderVariants accept_all spec_widget [] =
       (Inr (), [] @ [EvReorder (pid spec_widget) (ptitle spec_widget) 1 2, EvPut 11 1, EvSleep 1000,
                      EvPut 10 2, EvSleep 1000, EvReorderDone])"
      using check_swap [OF widget_sample widget_bolt] by (simp add: accept_all_def)
    then show ?thesis by (simp add: spec_widget_def)
  qed
  show ?thesis using wf run reorder_refines_spec [OF wf run] by simp
qed

text \<open>
  C2 (spec P3 and 4.3). When the first sample variant is before the first bolt variant and the store accepts every write, the policy logs the reorder, writes the bolt variant to the sample position, sleeps 1000 ms, writes the sample variant to the bolt position, sleeps 1000 ms and logs completion, in this order.
\<close>
theorem reorder_swap_writes:
  assumes "find_variant ''sample'' (variants p) = Some s" "find_variant ''bolt'' (variants p) = Some b"
    and "position s < position b"
    and "\<forall>h v q. put_reply T h v q = Ok ()"
  shows "checkAndReorderVariants T p tr =
           (Inr (), tr @ [EvReorder (pid p) (ptitle p) (position s) (position b),
                          EvPut (vid b) (position s), EvSleep 1000,
                          EvPut (vid s) (position b), EvSleep 1000, EvReorderDone])"
  using assms(4) by (intro check_swap [OF assms(1-3)]) simp_all

theorem reorder_swap_writes_witness:
  "find_variant ''sample'' (variants spec_widget) = Some \<lparr>vid = 10, vtitle = ''Sample'', position = 1\<rparr>
   \<and> find_variant ''bolt'' (variants spec_widget) = Some \<lparr>vid = 11, vtitle = ''Bolt'', position = 2\<rparr>
   \<and> (1::int) < 2 \<and> (\<forall>h v q. put_reply accept_all h v q = Ok ())
   \<and> checkAndReorderVariants accept_all spec_widget [] =
       (Inr (), [EvReorder 1 ''Widget'' 1 2, EvPut 11 1, EvSleep 1000, EvPut 10 2, EvSleep 1000, EvReorderDone])"
proof -
  have ok: "\<forall>h v q. put_reply accept_all h v q = Ok ()" by (simp add: accept_all_def)
  show ?thesis
    using widget_sample widget_bolt ok reorder_swap_writes [OF widget_sample widget_bolt _ ok, of "[]"]
    by (simp add: spec_widget_def)
qed

text \<open>
  C4 (spec P2). When both variants are found but the sample variant's position is not smaller than the bolt variant's, the policy issues no request and leaves the history unchanged.
\<close>
theorem reorder_noop_ordered:
  assumes "find_variant ''sample'' (variants p) = Some s" "find_variant ''bolt'' (variants p) = Some b"
    and "\<not> position s < position b"
  shows "checkAndReorderVariants T p tr = (Inr (), tr)"
  using assms by (simp add: check_unfold)

theorem reorder_noop_ordered_witness:
  "find_variant ''sample'' (variants (spec_widget\<lparr>variants := [\<lparr>vid = 11, vtitle = ''Bolt'', position = 1\<rparr>, \<lparr>vid = 10, vtitle = ''SAMPLE'', position = 2\<rparr>]\<rparr>))
     = Some \<lparr>vid = 10, vtitle = ''SAMPLE'', position = 2\<rparr>
   \<and> find_variant ''bolt'' (variants (spec_widget\<lparr>variants := [\<lparr>vid = 11, vtitle = ''Bolt'', position = 1\<rparr>, \<lparr>vid = 10, vtitle = ''SAMPLE'', position = 2\<rparr>]\<rparr>))
     = Some \<lparr>vid = 11, vtitle = ''Bolt'', position = 1\<rparr>
   \<and> \<not> (2::int) < 1
   \<and> checkAndReorderVariants accept_all (spec_widget\<lparr>variants := [\<lparr>vid = 11, vtitle = ''Bolt'', position = 1\<rparr>, \<lparr>vid = 10, vtitle = ''SAMPLE'', position = 2\<rparr>]\<rparr>) [] = (Inr (), [])"
proof -
  have s: "find_variant ''sample'' (variants (spec_widget\<lparr>variants := [\<lparr>vid = 11, vtitle = ''Bolt'', position = 1\<rparr>, \<lparr>vid = 10, vtitle = ''SAMPLE'', position = 2\<rparr>]\<rparr>))
     = Some \<lparr>vid = 10, vtitle = ''SAMPLE'', position = 2\<rparr>" by code_simp
  have b: "find_variant ''bolt'' (variants (spec_widget\<lparr>variants := [\<lparr>vid = 11, vtitle = ''Bolt'', position = 1\<rparr>, \<lparr>vid = 10, vtitle = ''SAMPLE'', position = 2\<rparr>]\<rparr>))
     = Some \<lparr>vid = 11, vtitle = ''Bolt'', position = 1\<rparr>" by code_simp
  show ?thesis using s b reorder_noop_ordered [OF s b] by simp
qed

text \<open>
  C9 (spec I2, PartialReorderFailure). When the first write succeeds and the second fails, the policy stops with an error after the second request, without rollback, and the store is left with the bolt and sample variants (distinct ids) at the same position.
\<close>
theorem reorder_partial_failure:
  assumes "find_variant ''sample'' (variants p) = Some s" "find_variant ''bolt'' (variants p) = Some b"
    and "position s < position b" and "wf_variants (variants p)"
    and "put_reply T (tr @ [EvReorder (pid p) (ptitle p) (position s) (position b)]) (vid b) (position s) = Ok u"
    and "\<forall>u. put_reply T (tr @ [EvReorder (pid p) (ptitle p) (position s) (position b),
                        EvPut (vid b) (position s), EvSleep 1000]) (vid s) (position b) \<noteq> Ok u"
  shows "(\<exists>e. checkAndReorderVariants T p tr =
           (Inl e, tr @ [EvReorder (pid p) (ptitle p) (position s) (position b),
                         EvPut (vid b) (position s), EvSleep 1000, EvPut (vid s) (position b)]))
         \<and> vid b \<noteq> vid s
         \<and> apply_put (positions_of (variants p)) (EvPut (vid b) (position s)) (vid b)
           = apply_put (positions_of (variants p)) (EvPut (vid b) (position s)) (vid s)"
proof -
  have run: "\<exists>e. checkAndReorderVariants T p tr =
           (Inl e, tr @ [EvReorder (pid p) (ptitle p) (position s) (position b),
                         EvPut (vid b) (position s), EvSleep 1000, EvPut (vid s) (position b)])"
    by (rule check_second_fail [OF assms(1,2,3,5,6)])
  have mem: "s \<in> set (variants p)" "b \<in> set (variants p)"
    using assms(1,2) by (auto dest: find_variant_SomeD)
  have sb: "vid b \<noteq> vid s" using assms(3,4) mem wf_vid_inj by fastforce
  then show ?thesis using run mem assms(4) by (simp add: positions_of_vid)
qed

theorem reorder_partial_failure_witness:
  "find_variant ''sample'' (variants spec_widget) = Some \<lparr>vid = 10, vtitle = ''Sample'', position = 1\<rparr>
   \<and> find_variant ''bolt'' (variants spec_widget) = Some \<lparr>vid = 11, vtitle = ''Bolt'', position = 2\<rparr>
   \<and> (1::int) < 2 \<and> wf_variants (variants spec_widget)
   \<and> put_reply reject_10 [EvReorder 1 ''Widget'' 1 2] 11 1 = Ok ()
   \<and> (\<forall>u. put_reply reject_10 [EvReorder 1 ''Widget'' 1 2, EvPut 11 1, EvSleep 1000] 10 2 \<noteq> Ok u)
   \<and> checkAndReorderVariants reject_10 spec_widget [] =
       (Inl (HttpError 500 ''error''), [EvReorder 1 ''Widget'' 1 2, EvPut 11 1, EvSleep 1000, EvPut 10 2])
   \<and> apply_put (positions_of (variants spec_widget)) (EvPut 11 1) 11
     = apply_put (positions_of (variants spec_widget)) (EvPut 11 1) 10"
proof -
  have wf: "wf_variants (variants spec_widget)" by (simp add: wf_variants_def spec_widget_def)
  have p1: "put_reply reject_10 ([] @ [EvReorder (pid spec_widget) (ptitle spec_widget) 1 2]) 11 1 = Ok ()"
    by (simp add: reject_10_def)
  have p2: "\<forall>u. put_reply reject_10 ([] @ [EvReorder (pid spec_widget) (ptitle spec_widget) 1 2,
                  EvPut 11 1, EvSleep 1000]) 10 2 \<noteq> Ok u"
    by (simp add: reject_10_def)
  have c: "(\<exists>e. checkAndReorderVariants reject_10 spec_widget [] =
           (Inl e, [] @ [EvReorder (pid spec_widget) (ptitle spec_widget) 1 2,
                         EvPut 11 1, EvSleep 1000, EvPut 10 2]))
         \<and> (11::nat) \<noteq> 10
         \<and> apply_put (positions_of (variants spec_widget)) (EvPut 11 1) 11
           = apply_put (positions_of (variants spec_widget)) (EvPut 11 1) 10"
    using reorder_partial_failure [OF widget_sample widget_bolt _ wf, of reject_10 "[]"] p1 p2 by simp
  have run: "checkAndReorderVariants reject_10 spec_widget [] =
       (Inl (HttpError 500 ''error''), [EvReorder 1 ''Widget'' 1 2, EvPut 11 1, EvSleep 1000, EvPut 10 2])"
    unfolding check_unfold widget_sample widget_bolt by (simp add: reject_10_def accept_all_def spec_widget_def)
  show ?thesis using widget_sample widget_bolt wf p1 p2 c run by (simp add: spec_widget_def)
qed

text \<open>
  C10 (spec I1). When the positions of a product with unique variant ids are pairwise distinct and the policy returns normally, the positions the store holds for the product's variants after its writes are still pairwise distinct.
\<close>
theorem reorder_keeps_positions_distinct:
  assumes "wf_variants (variants p)" and "distinct (map position (variants p))"
    and "checkAndReorderVariants T p tr = (Inr (), tr')"
  shows "inj_on (apply_writes (positions_of (variants p)) (drop (length tr) tr')) (dom (positions_of (variants p)))"
  using assms(3)
proof (cases rule: check_cases)
  case noop
  then show ?thesis using assms(1,2) by (simp add: apply_writes_def positions_of_inj)
next
  case (swap s b)
  then have mem: "s \<in> set (variants p)" "b \<in> set (variants p)" by (auto dest: find_variant_SomeD)
  let ?vs = "swap_positions s b (variants p)"
  have vids: "map vid ?vs = map vid (variants p)" by (rule swap_positions_vids)
  then have "wf_variants ?vs" using assms(1) by (simp add: wf_variants_def)
  moreover have "dom (positions_of ?vs) = dom (positions_of (variants p))"
    by (metis dom_positions_of set_map vids)
  moreover have "distinct (map position ?vs)"
    using swap_positions_distinct [OF assms(1) mem swap(3) assms(2)] .
  moreover have "apply_writes (positions_of (variants p)) (drop (length tr) tr') = positions_of ?vs"
    using swap(5) writes_swap [OF assms(1) mem swap(3)] by simp
  ultimately show ?thesis using positions_of_inj by metis
qed simp_all

theorem reorder_keeps_positions_distinct_witness:
  "wf_variants (variants spec_widget) \<and> distinct (map position (variants spec_widget))
   \<and> checkAndReorderVariants accept_all spec_widget [] =
       (Inr (), [EvReorder 1 ''Widget'' 1 2, EvPut 11 1, EvSleep 1000, EvPut 10 2, EvSleep 1000, EvReorderDone])
   \<and> inj_on (apply_writes (positions_of (variants spec_widget))
        [EvReorder 1 ''Widget'' 1 2, EvPut 11 1, EvSleep 1000, EvPut 10 2, EvSleep 1000, EvReorderDone])
        (dom (positions_of (variants spec_widget)))"
proof -
  have wf: "wf_variants (variants spec_widget)" by (simp add: wf_variants_def spec_widget_def)
  have d: "distinct (map position (variants spec_widget))" by (simp add: spec_widget_def)
  have run: "checkAndReorderVariants accept_all spec_widget [] =
       (Inr (), [EvReorder 1 ''Widget'' 1 2, EvPut 11 1, EvSleep 1000, EvPut 10 2, EvSleep 1000, EvReorderDone])"
    unfolding check_unfold widget_sample widget_bolt by (simp add: accept_all_def spec_widget_def)
  show ?thesis using wf d run reorder_keeps_positions_distinct [OF wf d run] by simp
qed

text \<open>
  C17 (spec 4.3, failure of the first write). When every write is refused, the policy stops with an error after exactly one write request, the one moving the bolt variant, and never issues the second.
\<close>
theorem reorder_first_write_fails:
  assumes "find_variant ''sample'' (variants p) = Some s" "find_variant ''bolt'' (variants p) = Some b"
    and "position s < position b"
    and "\<forall>h v q u. put_reply T h v q \<noteq> Ok u"
  shows "\<exists>e. checkAndReorderVariants T p tr =
           (Inl e, tr @ [EvReorder (pid p) (ptitle p) (position s) (position b), EvPut (vid b) (position s)])
         \<and> puts (drop (length tr) (snd (checkAndReorderVariants T p tr))) = 1"
proof -
  obtain e where "checkAndReorderVariants T p tr =
           (Inl e, tr @ [EvReorder (pid p) (ptitle p) (position s) (position b), EvPut (vid b) (position s)])"
    using check_first_fail [OF assms(1-3)] assms(4) by blast
  then show ?thesis by simp
qed

theorem reorder_first_write_fails_witness:
  "find_variant ''sample'' (variants spec_widget) = Some \<lparr>vid = 10, vtitle = ''Sample'', position = 1\<rparr>
   \<and> find_variant ''bolt'' (variants spec_widget) = Some \<lparr>vid = 11, vtitle = ''Bolt'', position = 2\<rparr>
   \<and> (1::int) < 2 \<and> (\<forall>h v q u. put_reply reject_all h v q \<noteq> Ok u)
   \<and> (\<exists>e. checkAndReorderVariants reject_all spec_widget [] = (Inl e, [EvReorder 1 ''Widget'' 1 2, EvPut 11 1]))"
proof -
  have r: "\<forall>h v q u. put_reply reject_all h v q \<noteq> Ok u" by (simp add: reject_all_def)
  show ?thesis using widget_sample widget_bolt r reorder_first_write_fails [OF widget_sample widget_bolt _ r, of "[]"]
    by (simp add: spec_widget_def)
qed

text \<open>
  C20 (finding: one variant in both roles; spec 9). Whenever the first variant whose
  title contains "sample" also contains "bolt", and no variant before it contains
  "bolt", both searches return that one variant: its position is not smaller than itself,
  so nothing is written, whatever the later variants are (a later variant titled "Bolt"
  is never considered). The spec leaves open which variant is the bolt variant then.
\<close>

theorem reorder_sample_bolt_title:
  assumes "variants p = pre @ v # post"
    and "\<forall>w \<in> set pre. \<not> matches_kw ''sample'' w \<and> \<not> matches_kw ''bolt'' w"
    and "matches_kw ''sample'' v" and "matches_kw ''bolt'' v"
  shows "checkAndReorderVariants T p tr = (Inr (), tr)"
proof -
  have "find_variant ''sample'' (variants p) = Some v" and "find_variant ''bolt'' (variants p) = Some v"
    using assms by (auto simp: find_variant_def find_Some_split)
  then show ?thesis by (simp add: check_unfold)
qed

theorem reorder_sample_bolt_title_witness:
  "matches_kw ''sample'' \<lparr>vid = 20, vtitle = ''Sample Bolt'', position = 1\<rparr>
   \<and> matches_kw ''bolt'' \<lparr>vid = 20, vtitle = ''Sample Bolt'', position = 1\<rparr>
   \<and> checkAndReorderVariants accept_all
       \<lparr>pid = 3, ptitle = ''Kit'',
        variants = [\<lparr>vid = 20, vtitle = ''Sample Bolt'', position = 1\<rparr>,
                    \<lparr>vid = 21, vtitle = ''Bolt'', position = 2\<rparr>]\<rparr> [] = (Inr (), [])"
proof -
  have s: "matches_kw ''sample'' \<lparr>vid = 20, vtitle = ''Sample Bolt'', position = 1\<rparr>"
    and b: "matches_kw ''bolt'' \<lparr>vid = 20, vtitle = ''Sample Bolt'', position = 1\<rparr>"
    by code_simp+
  show ?thesis
    using s b reorder_sample_bolt_title [of "\<lparr>pid = 3, ptitle = ''Kit'',
        variants = [\<lparr>vid = 20, vtitle = ''Sample Bolt'', position = 1\<rparr>,
                    \<lparr>vid = 21, vtitle = ''Bolt'', position = 2\<rparr>]\<rparr>" "[]"] by simp
qed


text \<open>
  C33 (spec P1, case-insensitive classification). Two products that differ only in the
  case of their variants' titles are handled identically: the same requests, sleeps, log
  lines and result, whatever the server does. The search lower-cases each title before
  looking for the lower-case keywords.
\<close>

theorem reorder_case_insensitive:
  assumes "map case_key (variants p) = map case_key (variants p')"
    and "pid p = pid p'" and "ptitle p = ptitle p'"
  shows "checkAndReorderVariants T p tr = checkAndReorderVariants T p' tr"
proof -
  have s: "map_option (\<lambda>v. (vid v, position v)) (find_variant ''sample'' (variants p))
         = map_option (\<lambda>v. (vid v, position v)) (find_variant ''sample'' (variants p'))"
    and b: "map_option (\<lambda>v. (vid v, position v)) (find_variant ''bolt'' (variants p))
         = map_option (\<lambda>v. (vid v, position v)) (find_variant ''bolt'' (variants p'))"
    using find_variant_case [OF assms(1)] by blast+
  show ?thesis
  proof (cases "find_variant ''sample'' (variants p)"; cases "find_variant ''bolt'' (variants p)")
    fix s1 b1
    assume s1: "find_variant ''sample'' (variants p) = Some s1" and b1: "find_variant ''bolt'' (variants p) = Some b1"
    have "map_option (\<lambda>v. (vid v, position v)) (find_variant ''sample'' (variants p')) = Some (vid s1, position s1)"
      using s s1 by simp
    then obtain s2 where s2: "find_variant ''sample'' (variants p') = Some s2" "vid s1 = vid s2" "position s1 = position s2"
      by (auto simp: map_option_eq_Some)
    have "map_option (\<lambda>v. (vid v, position v)) (find_variant ''bolt'' (variants p')) = Some (vid b1, position b1)"
      using b b1 by simp
    then obtain b2 where b2: "find_variant ''bolt'' (variants p') = Some b2" "vid b1 = vid b2" "position b1 = position b2"
      by (auto simp: map_option_eq_Some)
    show ?thesis by (simp add: check_unfold s1 b1 s2 b2 assms(2,3) cong: sum.case_cong)
  qed (use s b in \<open>auto simp: check_unfold assms(2,3) split: option.splits\<close>)
qed

theorem reorder_case_insensitive_witness:
  "map case_key (variants spec_widget) =
     map case_key [\<lparr>vid = 10, vtitle = ''SAMPLE'', position = 1\<rparr>, \<lparr>vid = 11, vtitle = ''bOLT'', position = 2\<rparr>]
   \<and> checkAndReorderVariants accept_all spec_widget [] =
     checkAndReorderVariants accept_all (spec_widget\<lparr>variants := [\<lparr>vid = 10, vtitle = ''SAMPLE'', position = 1\<rparr>,
                                                       \<lparr>vid = 11, vtitle = ''bOLT'', position = 2\<rparr>]\<rparr>) []"
proof -
  have k: "map case_key (variants spec_widget) =
     map case_key [\<lparr>vid = 10, vtitle = ''SAMPLE'', position = 1\<rparr>, \<lparr>vid = 11, vtitle = ''bOLT'', position = 2\<rparr>]"
    by code_simp
  show ?thesis
    using k reorder_case_insensitive [of spec_widget "spec_widget\<lparr>variants := [\<lparr>vid = 10, vtitle = ''SAMPLE'', position = 1\<rparr>,
                                                       \<lparr>vid = 11, vtitle = ''bOLT'', position = 2\<rparr>]\<rparr>" accept_all "[]"]
    by simp
qed

end
