(* ===== verification/Pager.thy ===== *)
theory Pager
  imports Retrier Link_Header Reorder
begin

text \<open>
  The pager and the per-page driver, \<^verbatim>\<open>processAllProducts\<close>
  (\<^verbatim>\<open>src/index.js\<close>, lines 33--61): starting from
  \<^verbatim>\<open>products.json?limit=250\<close>, fetch a page with the retrier; stop when
  \<^verbatim>\<open>data.products\<close> is missing or empty; otherwise log the page, run the reorder
  policy on every product in order, and continue with the path from the \<^verbatim>\<open>link\<close>
  header, or stop. The \<^verbatim>\<open>while (true)\<close> loop has no bound (a server may always
  answer with a next link), so it is a \<^theory_text>\<open>partial_function (option)\<close>:
  \<open>None\<close> is a run that never ends.
\<close>

section \<open>Definitions\<close>

text \<open>\<^verbatim>\<open>for (const product of products) await checkAndReorderVariants(product);\<close>\<close>

fun processProducts :: "transport \<Rightarrow> product list \<Rightarrow> event list \<Rightarrow> unit outcome" where
  "processProducts T [] tr = (Inr (), tr)"
| "processProducts T (p # ps) tr =
     (case checkAndReorderVariants T p tr of
        (Inl e, tr') \<Rightarrow> (Inl e, tr')
      | (Inr _, tr') \<Rightarrow> processProducts T ps tr')"

text \<open>
  One iteration of the \<^verbatim>\<open>while (true)\<close> loop and the loop itself; the loop
  variables \<^verbatim>\<open>url\<close> and \<^verbatim>\<open>pageNumber\<close> are its arguments.
\<close>

partial_function (option) pageLoop ::
  "transport \<Rightarrow> string \<Rightarrow> nat \<Rightarrow> event list \<Rightarrow> unit outcome option" where
  "pageLoop T url pageNumber tr =
     (case retryRequest T url 5 1000 tr of
        (Inl e, tr1) \<Rightarrow> Some (Inl e, tr1)
      | (Inr pg, tr1) \<Rightarrow>
          (case products pg of
             None \<Rightarrow> Some (Inr (), tr1)
           | Some ps \<Rightarrow>
               if ps = [] then Some (Inr (), tr1)
               else
                 (case processProducts T ps (tr1 @ [EvPage (Suc pageNumber) (length ps)]) of
                    (Inl e, tr2) \<Rightarrow> Some (Inl e, tr2)
                  | (Inr _, tr2) \<Rightarrow>
                      (case next_page_url (link pg) of
                         None \<Rightarrow> Some (Inr (), tr2)
                       | Some url' \<Rightarrow> pageLoop T url' (Suc pageNumber) tr2))))"

text \<open>The whole function: the loop from the first page, then the closing log line.\<close>

definition processAllProducts :: "transport \<Rightarrow> event list \<Rightarrow> unit outcome option" where
  "processAllProducts T tr =
     (case pageLoop T ''products.json?limit=250'' 0 tr of
        None \<Rightarrow> None
      | Some (Inl e, tr') \<Rightarrow> Some (Inl e, tr')
      | Some (Inr _, tr') \<Rightarrow> Some (Inr (), tr' @ [EvFinished]))"

text \<open>
  A scripted server: the \<open>i\<close>-th GET of a run is answered with the \<open>i\<close>-th page of
  the script and every GET after the script with a page without products; every write is
  accepted. The environment in which the spec states P6.
\<close>

definition empty_page :: page where
  "empty_page = \<lparr>products = None, link = None\<rparr>"

definition scripted :: "page list \<Rightarrow> transport" where
  "scripted pgs =
     \<lparr>get_reply = (\<lambda>h _. if gets h < length pgs then Ok (pgs ! gets h) else Ok empty_page),
      put_reply = (\<lambda>_ _ _. Ok ())\<rparr>"

text \<open>Two pages: the product of the spec's scenario with a next link, then a last page.\<close>

definition two_pages :: "page list" where
  \<open>two_pages =
     [\<lparr>products = Some [spec_widget],
       link = Some ''<https://s/products.json?limit=250&page_info=P2>; rel="next"''\<rparr>,
      \<lparr>products = Some [spec_widget\<lparr>pid := 2\<rparr>], link = None\<rparr>]\<close>

section \<open>Lemmas\<close>

lemma check_puts_ok:
  assumes "\<forall>h v p. put_reply T h v p = Ok ()"
  shows "\<exists>seg. checkAndReorderVariants T p tr = (Inr (), tr @ seg) \<and> gets seg = 0 \<and> filter is_page seg = []"
  using assms by (auto simp: check_unfold split: option.splits)

lemma process_puts_ok:
  assumes "\<forall>h v p. put_reply T h v p = Ok ()"
  shows "\<exists>seg. processProducts T ps tr = (Inr (), tr @ seg) \<and> gets seg = 0 \<and> filter is_page seg = []"
proof (induction ps arbitrary: tr)
  case Nil
  then show ?case by simp
next
  case (Cons p ps)
  obtain seg where c: "checkAndReorderVariants T p tr = (Inr (), tr @ seg)" and "gets seg = 0"
    and "filter is_page seg = []"
    using check_puts_ok [OF assms] by blast
  moreover obtain seg' where "processProducts T ps (tr @ seg) = (Inr (), (tr @ seg) @ seg')"
    and "gets seg' = 0" and "filter is_page seg' = []"
    using Cons.IH by blast
  ultimately show ?case by (intro exI [of _ "seg @ seg'"]) simp
qed

lemma loop_fetch_fail [step_simps]:
  "retryRequest T url 5 1000 tr = (Inl e, tr1) \<Longrightarrow> pageLoop T url n tr = Some (Inl e, tr1)"
  by (simp add: pageLoop.simps)

lemma loop_no_products [step_simps]:
  "retryRequest T url 5 1000 tr = (Inr pg, tr1) \<Longrightarrow> products pg = None \<or> products pg = Some [] \<Longrightarrow>
   pageLoop T url n tr = Some (Inr (), tr1)"
  by (auto simp: pageLoop.simps)

lemma loop_products_fail [step_simps]:
  "retryRequest T url 5 1000 tr = (Inr pg, tr1) \<Longrightarrow> products pg = Some ps \<Longrightarrow> ps \<noteq> [] \<Longrightarrow>
   processProducts T ps (tr1 @ [EvPage (Suc n) (length ps)]) = (Inl e, tr2) \<Longrightarrow>
   pageLoop T url n tr = Some (Inl e, tr2)"
  by (simp add: pageLoop.simps)

lemma loop_last_page [step_simps]:
  "retryRequest T url 5 1000 tr = (Inr pg, tr1) \<Longrightarrow> products pg = Some ps \<Longrightarrow> ps \<noteq> [] \<Longrightarrow>
   processProducts T ps (tr1 @ [EvPage (Suc n) (length ps)]) = (Inr u, tr2) \<Longrightarrow>
   next_page_url (link pg) = None \<Longrightarrow> pageLoop T url n tr = Some (Inr (), tr2)"
  by (simp add: pageLoop.simps)

lemma loop_next_page [step_simps]:
  "retryRequest T url 5 1000 tr = (Inr pg, tr1) \<Longrightarrow> products pg = Some ps \<Longrightarrow> ps \<noteq> [] \<Longrightarrow>
   processProducts T ps (tr1 @ [EvPage (Suc n) (length ps)]) = (Inr u, tr2) \<Longrightarrow>
   next_page_url (link pg) = Some url' \<Longrightarrow> pageLoop T url n tr = pageLoop T url' (Suc n) tr2"
  by (simp add: pageLoop.simps)

text \<open>
  Induction over the runs of the page loop that return: a property of the loop's arguments
  and result that holds for each way an iteration ends, and that an iteration passes on
  from the next one, holds for every run that returns. It is the fixpoint induction of the
  partial function (\<open>pageLoop.raw_induct\<close>) once and for all.
\<close>

lemma loop_rule [consumes 1, case_names fetch_fail no_products page_stop next_page]:
  assumes ret: "pageLoop T url n tr = Some y"
    and fetch_fail: "\<And>url n tr e tr1. retryRequest T url 5 1000 tr = (Inl e, tr1) \<Longrightarrow> P url n tr (Inl e, tr1)"
    and no_products: "\<And>url n tr pg tr1. retryRequest T url 5 1000 tr = (Inr pg, tr1) \<Longrightarrow>
           products pg = None \<or> products pg = Some [] \<Longrightarrow> P url n tr (Inr (), tr1)"
    and page_stop: "\<And>url n tr pg tr1 ps r tr2. retryRequest T url 5 1000 tr = (Inr pg, tr1) \<Longrightarrow>
           products pg = Some ps \<Longrightarrow> ps \<noteq> [] \<Longrightarrow>
           processProducts T ps (tr1 @ [EvPage (Suc n) (length ps)]) = (r, tr2) \<Longrightarrow>
           isl r \<or> next_page_url (link pg) = None \<Longrightarrow> P url n tr (r, tr2)"
    and next_page: "\<And>url n tr pg tr1 ps tr2 url' y. retryRequest T url 5 1000 tr = (Inr pg, tr1) \<Longrightarrow>
           products pg = Some ps \<Longrightarrow> ps \<noteq> [] \<Longrightarrow>
           processProducts T ps (tr1 @ [EvPage (Suc n) (length ps)]) = (Inr (), tr2) \<Longrightarrow>
           next_page_url (link pg) = Some url' \<Longrightarrow> P url' (Suc n) tr2 y \<Longrightarrow> P url n tr y"
  shows "P url n tr y"
proof -
  have "T = T \<longrightarrow> P url n tr y"
  proof (rule pageLoop.raw_induct [where P = "\<lambda>T0 url n tr y. T0 = T \<longrightarrow> P url n tr y", OF _ ret], rule impI)
    fix f T0 url n tr y
    assume IH: "\<And>T0 url n tr y. f T0 url n tr = Some y \<Longrightarrow> T0 = T \<longrightarrow> P url n tr y"
      and step: "(case retryRequest T0 url 5 1000 tr of
        (Inl e, tr1) \<Rightarrow> Some (Inl e, tr1)
      | (Inr pg, tr1) \<Rightarrow>
          (case products pg of
             None \<Rightarrow> Some (Inr (), tr1)
           | Some ps \<Rightarrow>
               if ps = [] then Some (Inr (), tr1)
               else
                 (case processProducts T0 ps (tr1 @ [EvPage (Suc n) (length ps)]) of
                    (Inl e, tr2) \<Rightarrow> Some (Inl e, tr2)
                  | (Inr _, tr2) \<Rightarrow>
                      (case next_page_url (link pg) of
                         None \<Rightarrow> Some (Inr (), tr2)
                       | Some url' \<Rightarrow> f T0 url' (Suc n) tr2)))) = Some y"
      and T0: "T0 = T"
    obtain r1 tr1 where rr: "retryRequest T url 5 1000 tr = (r1, tr1)" by fastforce
    show "P url n tr y"
    proof (cases r1)
      case (Inl e)
      then have "y = (Inl e, tr1)" using step T0 rr by simp
      then show ?thesis using fetch_fail rr Inl by simp
    next
      case (Inr pg)
      show ?thesis
      proof (cases "products pg = None \<or> products pg = Some []")
        case True
        then have "y = (Inr (), tr1)" using step T0 rr Inr by auto
        then show ?thesis using no_products rr Inr True by simp
      next
        case False
        then obtain ps where ps: "products pg = Some ps" "ps \<noteq> []" by auto
        obtain r2 tr2 where pp: "processProducts T ps (tr1 @ [EvPage (Suc n) (length ps)]) = (r2, tr2)"
          by fastforce
        show ?thesis
        proof (cases "\<exists>url'. r2 = Inr () \<and> next_page_url (link pg) = Some url'")
          case False
          then have "isl r2 \<or> next_page_url (link pg) = None" by (cases r2) auto
          moreover from this have "y = (r2, tr2)" using step T0 rr Inr ps pp by (cases r2) auto
          ultimately show ?thesis using page_stop rr Inr ps pp by simp
        next
          case True
          then obtain url' where u: "r2 = Inr ()" "next_page_url (link pg) = Some url'" by blast
          then have "f T url' (Suc n) tr2 = Some y" using step T0 rr Inr ps pp by simp
          then have "P url' (Suc n) tr2 y" using IH by blast
          then show ?thesis using next_page rr Inr ps pp u by blast
        qed
      qed
    qed
  qed
  then show ?thesis by simp
qed

text \<open>A first listing request that fails with a status other than 429 ends the run at once.\<close>

lemma first_fetch_fails:
  assumes "get_reply T [] ''products.json?limit=250'' = Fail st b" and "st \<noteq> 429"
  shows "processAllProducts T [] = Some (Inl (HttpError st b), [EvGet ''products.json?limit=250''])"
proof -
  have "retryRequest T ''products.json?limit=250'' 5 1000 [] =
          (Inl (HttpError st b), [] @ [EvGet ''products.json?limit=250''])"
    using assms by (simp add: retry_stop is_429_def reply_result_def)
  then show ?thesis by (simp add: processAllProducts_def loop_fetch_fail)
qed

lemma scripted_get: "get_reply (scripted pgs) h u = Ok (if gets h < length pgs then pgs ! gets h else empty_page)"
  by (simp add: scripted_def)

lemma scripted_put: "\<forall>h v p. put_reply (scripted pgs) h v p = Ok ()"
  by (simp add: scripted_def)

lemma scripted_loop:
  assumes "\<forall>pg \<in> set pgs. \<exists>ps. products pg = Some ps \<and> ps \<noteq> []"
    and "\<forall>i < length pgs - 1. next_page_url (link (pgs ! i)) \<noteq> None"
    and "next_page_url (link (last pgs)) = None"
    and "gets tr < length pgs"
  shows "\<exists>tr'. pageLoop (scripted pgs) url n tr = Some (Inr (), tr')
           \<and> gets tr' = length pgs \<and> length (filter is_page tr') = length (filter is_page tr) + (length pgs - gets tr)"
  using assms(4)
proof (induction "length pgs - gets tr" arbitrary: tr url n)
  case 0
  then show ?case by simp
next
  case (Suc m)
  let ?pg = "pgs ! gets tr"
  have r: "retryRequest (scripted pgs) url 5 1000 tr = (Inr ?pg, tr @ [EvGet url])"
    using Suc.prems by (simp add: retry_Ok scripted_get)
  obtain ps where ps: "products ?pg = Some ps" "ps \<noteq> []"
    using assms(1) Suc.prems by (meson nth_mem)
  obtain seg where pp: "processProducts (scripted pgs) ps ((tr @ [EvGet url]) @ [EvPage (Suc n) (length ps)])
      = (Inr (), ((tr @ [EvGet url]) @ [EvPage (Suc n) (length ps)]) @ seg)"
    and sg: "gets seg = 0" "filter is_page seg = []"
    using process_puts_ok [OF scripted_put] by blast
  let ?tr2 = "((tr @ [EvGet url]) @ [EvPage (Suc n) (length ps)]) @ seg"
  show ?case
  proof (cases "Suc (gets tr) = length pgs")
    case True
    then have "?pg = last pgs" by (metis diff_Suc_1 last_conv_nth list.size(3) nat.distinct(1))
    then have "next_page_url (link ?pg) = None" using assms(3) by simp
    then have "pageLoop (scripted pgs) url n tr = Some (Inr (), ?tr2)"
      using loop_last_page [OF r ps pp] by simp
    then show ?thesis using True sg by simp
  next
    case False
    then obtain url' where u: "next_page_url (link ?pg) = Some url'"
      using assms(2) Suc.prems by fastforce
    have "pageLoop (scripted pgs) url n tr = pageLoop (scripted pgs) url' (Suc n) ?tr2"
      using loop_next_page [OF r ps pp u] .
    moreover have "m = length pgs - gets ?tr2" "gets ?tr2 < length pgs"
      using Suc.hyps Suc.prems False sg by simp_all
    ultimately show ?thesis using Suc.hyps(1) [of ?tr2 url' "Suc n"] sg Suc.prems by auto
  qed
qed

lemma scripted_terminates_from:
  "pageLoop (scripted pgs) url n tr \<noteq> None"
proof (induction "length pgs - gets tr" arbitrary: tr url n)
  case 0
  then have "retryRequest (scripted pgs) url 5 1000 tr = (Inr empty_page, tr @ [EvGet url])"
    by (simp add: retry_Ok scripted_get)
  then show ?case by (simp add: loop_no_products empty_page_def)
next
  case (Suc m)
  let ?pg = "pgs ! gets tr"
  have r: "retryRequest (scripted pgs) url 5 1000 tr = (Inr ?pg, tr @ [EvGet url])"
    using Suc.hyps by (simp add: retry_Ok scripted_get)
  show ?case
  proof (cases "products ?pg = None \<or> products ?pg = Some []")
    case True
    then show ?thesis using loop_no_products [OF r] by simp
  next
    case False
    then obtain ps where ps: "products ?pg = Some ps" "ps \<noteq> []" by auto
    obtain seg where pp: "processProducts (scripted pgs) ps ((tr @ [EvGet url]) @ [EvPage (Suc n) (length ps)])
        = (Inr (), ((tr @ [EvGet url]) @ [EvPage (Suc n) (length ps)]) @ seg)"
      and sg: "gets seg = 0"
      using process_puts_ok [OF scripted_put] by blast
    let ?tr2 = "((tr @ [EvGet url]) @ [EvPage (Suc n) (length ps)]) @ seg"
    show ?thesis
    proof (cases "next_page_url (link ?pg)")
      case None
      then show ?thesis using loop_last_page [OF r ps pp] by simp
    next
      case (Some url')
      have "m = length pgs - gets ?tr2" using Suc.hyps sg by simp
      then show ?thesis using loop_next_page [OF r ps pp Some] Suc.hyps(1) by simp
    qed
  qed
qed

lemma processProducts_append:
  "processProducts T (ps @ qs) tr =
     (case processProducts T ps tr of (Inl e, tr') \<Rightarrow> (Inl e, tr') | (Inr _, tr') \<Rightarrow> processProducts T qs tr')"
  by (induction ps arbitrary: tr) (auto split: prod.splits sum.splits)

section \<open>Properties\<close>

text \<open>
  C7 (spec P6). Against a server that serves a script of \<open>n\<close> non-empty pages in which
  every page but the last has a usable next link and the last has none, a run stops after
  exactly \<open>n\<close> GETs and \<open>n\<close> processed pages, then logs that it finished.
\<close>

theorem paging_stops_after_last_next:
  assumes "pgs \<noteq> []"
    and "\<forall>pg \<in> set pgs. \<exists>ps. products pg = Some ps \<and> ps \<noteq> []"
    and "\<forall>i < length pgs - 1. next_page_url (link (pgs ! i)) \<noteq> None"
    and "next_page_url (link (last pgs)) = None"
  shows "\<exists>tr. processAllProducts (scripted pgs) [] = Some (Inr (), tr @ [EvFinished])
           \<and> gets tr = length pgs \<and> length (filter is_page tr) = length pgs"
proof -
  have "gets [] < length pgs" using assms(1) by simp
  then obtain tr where "pageLoop (scripted pgs) ''products.json?limit=250'' 0 [] = Some (Inr (), tr)"
    and "gets tr = length pgs" and "length (filter is_page tr) = length pgs"
    using scripted_loop [OF assms(2-4)] by fastforce
  then show ?thesis by (simp add: processAllProducts_def)
qed

theorem paging_stops_after_last_next_witness:
  "next_page_url (link (last two_pages)) = None
   \<and> (\<exists>tr. processAllProducts (scripted two_pages) [] = Some (Inr (), tr @ [EvFinished])
           \<and> gets tr = 2 \<and> length (filter is_page tr) = 2)"
proof -
  have h1: "two_pages \<noteq> []" by (simp add: two_pages_def)
  have h2: "\<forall>pg \<in> set two_pages. \<exists>ps. products pg = Some ps \<and> ps \<noteq> []" by (simp add: two_pages_def)
  have h3: "\<forall>i < length two_pages - 1. next_page_url (link (two_pages ! i)) \<noteq> None"
  proof -
    have "next_page_url (link (two_pages ! 0)) = Some ''products.json?limit=250&page_info=P2''"
      by code_simp
    then show ?thesis by (simp add: two_pages_def)
  qed
  have h4: "next_page_url (link (last two_pages)) = None" by (simp add: two_pages_def next_page_url_def)
  have "length two_pages = 2" by (simp add: two_pages_def)
  then show ?thesis using h1 h2 h3 h4 paging_stops_after_last_next [OF h1 h2 h3 h4] by simp
qed

text \<open>
  C16 (termination). Against any finite script, the \<^verbatim>\<open>while (true)\<close> loop of
  \<^verbatim>\<open>processAllProducts\<close> returns: the partial function has a value.
\<close>

theorem scripted_run_terminates: "\<exists>r. processAllProducts (scripted pgs) tr = Some r"
  using scripted_terminates_from [of pgs "''products.json?limit=250''" 0 tr]
  by (auto simp: processAllProducts_def split: option.splits sum.splits)

text \<open>
  C18 (spec 4.4 and 7, ordering and abort). Products of a page are processed in list
  order, and a failure of the policy on one product ends the page: the products after it
  are never inspected and the history is the one of the failing product.
\<close>

theorem products_stop_at_first_failure:
  assumes "processProducts T ps tr = (Inr (), tr1)" and "checkAndReorderVariants T p tr1 = (Inl e, tr2)"
  shows "processProducts T (ps @ p # qs) tr = (Inl e, tr2)"
  using assms by (simp add: processProducts_append)

theorem products_stop_at_first_failure_witness:
  "processProducts reject_all [spec_widget\<lparr>variants := []\<rparr>, spec_widget, spec_widget\<lparr>pid := 2\<rparr>] [] =
     (Inl (HttpError 429 ''Too Many Requests''), [EvReorder 1 ''Widget'' 1 2, EvPut 11 1])"
proof -
  have h1: "processProducts reject_all [spec_widget\<lparr>variants := []\<rparr>] [] = (Inr (), [])"
    by (simp add: check_unfold find_variant_def)
  have h2: "checkAndReorderVariants reject_all spec_widget [] =
     (Inl (HttpError 429 ''Too Many Requests''), [EvReorder 1 ''Widget'' 1 2, EvPut 11 1])"
    unfolding check_unfold widget_sample widget_bolt by (simp add: reject_all_def accept_all_def spec_widget_def)
  show ?thesis using products_stop_at_first_failure [OF h1 h2, of "[spec_widget\<lparr>pid := 2\<rparr>]"] by simp
qed

end
