(* ===== verification/Transport.thy ===== *)
theory Transport
  imports Shop_Model
begin

text \<open>
  The client side of the transport (\<^verbatim>\<open>src/index.js\<close>, lines 4--14 and 80--88):
  the configuration read from the environment, the axios client's base URL and headers,
  and the requests as they go on the wire: the path and JSON body of the variant update,
  with JavaScript's rendering of numbers in template literals and in
  \<^verbatim>\<open>JSON.stringify\<close>. The store's side of the API (spec section 6) reads a request
  back: the lemmas show that decimal rendering and reading are inverse, and that the
  update request the code sends is read as exactly the variant id and position it meant.
\<close>

section \<open>Configuration and the client\<close>

text \<open>
  \<^verbatim>\<open>process.env.SHOPIFY_STORE\<close> and \<^verbatim>\<open>process.env.SHOPIFY_ACCESS_TOKEN\<close>: a
  variable the environment does not set is \<^verbatim>\<open>undefined\<close> (\<open>None\<close>).
\<close>

record config =
  SHOPIFY_STORE :: "string option"
  SHOPIFY_ACCESS_TOKEN :: "string option"

text \<open>
  The process environment, \<^verbatim>\<open>process.env\<close>: a name maps to its value or is unset.
\<close>

type_synonym env = "string \<Rightarrow> string option"

text \<open>
  \<^verbatim>\<open>require('dotenv').config()\<close> (line 2): dotenv reads the \<^verbatim>\<open>.env\<close> file into
  a list of assignments in file order (its parser's result, taken here as given; a
  missing file gives none), a later assignment of a name replacing an earlier one, and
  sets each name the process environment does not already set. A variable of the process
  environment is never overridden (dotenv's default, \<^verbatim>\<open>override: false\<close>).
\<close>

definition dotenv_config :: "env \<Rightarrow> (string \<times> string) list \<Rightarrow> env" where
  "dotenv_config penv file = (\<lambda>k. case penv k of Some v \<Rightarrow> Some v | None \<Rightarrow> map_of (rev file) k)"

text \<open>Lines 4 and 6: the two variables read once, at startup.\<close>

definition read_config :: "env \<Rightarrow> config" where
  "read_config penv =
     \<lparr>SHOPIFY_STORE = penv ''SHOPIFY_STORE'', SHOPIFY_ACCESS_TOKEN = penv ''SHOPIFY_ACCESS_TOKEN''\<rparr>"

text \<open>Lines 2--6: the configuration the client is built with.\<close>

definition startup_config :: "env \<Rightarrow> (string \<times> string) list \<Rightarrow> config" where
  "startup_config penv file = read_config (dotenv_config penv file)"

definition ADMIN_API_VERSION :: string where
  "ADMIN_API_VERSION = ''2023-10''"

text \<open>A value in a template literal: \<^verbatim>\<open>`${undefined}`\<close> is the text \<open>undefined\<close>.\<close>

definition template_str :: "string option \<Rightarrow> string" where
  "template_str v = (case v of None \<Rightarrow> ''undefined'' | Some s \<Rightarrow> s)"

definition baseURL :: "config \<Rightarrow> string" where
  "baseURL cfg =
     ''https://'' @ template_str (SHOPIFY_STORE cfg) @ ''.myshopify.com/admin/api/'' @ ADMIN_API_VERSION @ ''/''"

text \<open>The headers of \<^verbatim>\<open>axios.create\<close>; the token's value is \<open>None\<close> when unset.\<close>

definition apiClient_headers :: "config \<Rightarrow> (string \<times> string option) list" where
  "apiClient_headers cfg =
     [(''X-Shopify-Access-Token'', SHOPIFY_ACCESS_TOKEN cfg), (''Content-Type'', Some ''application/json'')]"

section \<open>Numbers in text\<close>

text \<open>
  A non-negative integer in a template literal or in \<^verbatim>\<open>JSON.stringify\<close>: its
  decimal digits, most significant first, without leading zeros.
\<close>

fun string_of_nat :: "nat \<Rightarrow> string" where
  "string_of_nat n =
     (if n < 10 then [char_of (48 + n)] else string_of_nat (n div 10) @ [char_of (48 + n mod 10)])"

declare string_of_nat.simps [simp del]

definition string_of_int :: "int \<Rightarrow> string" where
  "string_of_int i = (if i < 0 then ''-'' @ string_of_nat (nat (- i)) else string_of_nat (nat i))"

section \<open>The requests\<close>

text \<open>
  \<^verbatim>\<open>apiClient.put(`variants/${variantId}.json`, {variant: {id: variantId, position:
  newPosition}})\<close>: the path, and the body as axios serialises it with
  \<^verbatim>\<open>JSON.stringify\<close> (keys in the order written, no spaces).
\<close>

definition variant_path :: "nat \<Rightarrow> string" where
  "variant_path variantId = ''variants/'' @ string_of_nat variantId @ ''.json''"

definition variant_body :: "nat \<Rightarrow> int \<Rightarrow> string" where
  \<open>variant_body variantId newPosition =
     ''{"variant":{"id":'' @ string_of_nat variantId @ '',"position":'' @ string_of_int newPosition @ ''}}''\<close>

datatype http_method = GET | PUT

record http_request =
  req_method :: http_method
  req_url :: string
  req_headers :: "(string \<times> string option) list"
  req_body :: "string option"

text \<open>
  The request on the wire for a request event of the history: axios joins the base URL,
  which ends in one slash, and the path, which has none in front, by concatenation.
\<close>

fun wire_request :: "config \<Rightarrow> event \<Rightarrow> http_request option" where
  "wire_request cfg (EvGet url) =
     Some \<lparr>req_method = GET, req_url = baseURL cfg @ url, req_headers = apiClient_headers cfg, req_body = None\<rparr>"
| "wire_request cfg (EvPut v p) =
     Some \<lparr>req_method = PUT, req_url = baseURL cfg @ variant_path v, req_headers = apiClient_headers cfg,
           req_body = Some (variant_body v p)\<rparr>"
| "wire_request cfg _ = None"

section \<open>The store's reading of a request\<close>

text \<open>Reading decimal digits back (spec section 6: the server's side of the API).\<close>

definition is_digit :: "char \<Rightarrow> bool" where
  "is_digit c \<longleftrightarrow> (48::nat) \<le> of_char c \<and> (of_char c :: nat) \<le> 57"

fun digits_val :: "nat \<Rightarrow> string \<Rightarrow> nat option" where
  "digits_val acc [] = Some acc"
| "digits_val acc (c # cs) = (if is_digit c then digits_val (10 * acc + (of_char c - 48)) cs else None)"

definition nat_of_string :: "string \<Rightarrow> nat option" where
  "nat_of_string s = (if s = [] then None else digits_val 0 s)"

definition int_of_string :: "string \<Rightarrow> int option" where
  "int_of_string s =
     (case s of
        c # r \<Rightarrow> if c = CHR ''-'' then map_option (\<lambda>n. - int n) (nat_of_string r)
                 else map_option int (nat_of_string s)
      | [] \<Rightarrow> None)"

text \<open>\<^verbatim>\<open>PUT variants/{variantId}.json\<close>: the id in the path.\<close>

definition parse_variant_path :: "string \<Rightarrow> nat option" where
  "parse_variant_path s =
     (case match_lit ''variants/'' s of
        None \<Rightarrow> None
      | Some r \<Rightarrow> if dropWhile is_digit r = ''.json'' then nat_of_string (takeWhile is_digit r) else None)"

text \<open>The body \<^verbatim>\<open>{"variant":{"id":\<close>\<open>n\<close>\<^verbatim>\<open>,"position":\<close>\<open>p\<close>\<^verbatim>\<open>}}\<close>.\<close>

definition parse_variant_body :: "string \<Rightarrow> (nat \<times> int) option" where
  \<open>parse_variant_body s =
     (case match_lit ''{"variant":{"id":'' s of
        None \<Rightarrow> None
      | Some r \<Rightarrow>
          (case (nat_of_string (takeWhile is_digit r), match_lit '',"position":'' (dropWhile is_digit r)) of
             (Some v, Some r2) \<Rightarrow>
               if dropWhile (\<lambda>c. c \<noteq> CHR ''}'') r2 = ''}}''
               then map_option (\<lambda>p. (v, p)) (int_of_string (takeWhile (\<lambda>c. c \<noteq> CHR ''}'') r2))
               else None
           | _ \<Rightarrow> None))\<close>

text \<open>An update the store accepts: path and body name the same variant.\<close>

definition parse_put :: "string \<Rightarrow> string \<Rightarrow> (nat \<times> int) option" where
  "parse_put path body =
     (case (parse_variant_path path, parse_variant_body body) of
        (Some v, Some (v', p)) \<Rightarrow> if v = v' then Some (v, p) else None
      | _ \<Rightarrow> None)"

text \<open>
  The listing paths of the API (spec section 6): the first page, or a page named by a
  non-empty cursor (which, taken from a \<^verbatim>\<open><...>\<close> reference, has no \<open>>\<close>).
\<close>

definition listing_path :: "string \<Rightarrow> bool" where
  "listing_path u \<longleftrightarrow>
     u = ''products.json?limit=250''
     \<or> (case match_lit ''products.json?limit=250&page_info='' u of
          None \<Rightarrow> False
        | Some c \<Rightarrow> c \<noteq> [] \<and> CHR ''>'' \<notin> set c)"

section \<open>Lemmas\<close>

text \<open>The process environment takes precedence over the file; the file fills the rest.\<close>

lemma dotenv_env_first: "penv k = Some v \<Longrightarrow> dotenv_config penv file k = Some v"
  by (simp add: dotenv_config_def)

lemma dotenv_file_fills: "penv k = None \<Longrightarrow> dotenv_config penv file k = map_of (rev file) k"
  by (simp add: dotenv_config_def)

lemma dotenv_unset:
  "penv k = None \<Longrightarrow> map_of file k = None \<Longrightarrow> dotenv_config penv file k = None"
  by (simp add: dotenv_config_def map_of_eq_None_iff)

lemma startup_unset:
  assumes "penv ''SHOPIFY_STORE'' = None" and "map_of file ''SHOPIFY_STORE'' = None"
    and "penv ''SHOPIFY_ACCESS_TOKEN'' = None" and "map_of file ''SHOPIFY_ACCESS_TOKEN'' = None"
  shows "startup_config penv file = \<lparr>SHOPIFY_STORE = None, SHOPIFY_ACCESS_TOKEN = None\<rparr>"
  using assms by (simp add: startup_config_def read_config_def dotenv_unset)

lemma of_char_digit [simp]: "d < 10 \<Longrightarrow> of_char (char_of (48 + d) :: char) = 48 + (d::nat)"
  by (simp add: of_char_of)

lemma is_digit_char [simp]: "d < 10 \<Longrightarrow> is_digit (char_of (48 + (d::nat)))"
  by (simp add: is_digit_def)

lemma string_of_nat_digits: "c \<in> set (string_of_nat n) \<Longrightarrow> is_digit c"
proof (induction n rule: string_of_nat.induct)
  case (1 n)
  then show ?case by (subst (asm) string_of_nat.simps) (auto split: if_splits)
qed

lemma string_of_nat_not_Nil [simp]: "string_of_nat n \<noteq> []"
  by (subst string_of_nat.simps) simp

lemma digits_val_append:
  "digits_val acc (xs @ ys) = (case digits_val acc xs of None \<Rightarrow> None | Some a \<Rightarrow> digits_val a ys)"
  by (induction acc xs rule: digits_val.induct) auto

lemma digits_val_string_of_nat:
  "digits_val acc (string_of_nat n) = Some (acc * 10 ^ length (string_of_nat n) + n)"
proof (induction n arbitrary: acc rule: string_of_nat.induct)
  case (1 n)
  show ?case
  proof (cases "n < 10")
    case True
    then show ?thesis by (subst (1 2) string_of_nat.simps) simp
  next
    case False
    let ?s = "string_of_nat (n div 10)"
    have s: "string_of_nat n = ?s @ [char_of (48 + n mod 10)]"
      using False by (subst string_of_nat.simps) simp
    have "10 * (acc * 10 ^ length ?s + n div 10) + n mod 10 = acc * 10 ^ Suc (length ?s) + n"
      by (simp add: algebra_simps)
    then show ?thesis using "1.IH" [OF False] by (simp add: s digits_val_append)
  qed
qed

lemma nat_of_string_of_nat [simp]: "nat_of_string (string_of_nat n) = Some n"
  by (simp add: nat_of_string_def digits_val_string_of_nat)

lemma string_of_nat_inj: "string_of_nat m = string_of_nat n \<Longrightarrow> m = n"
  using nat_of_string_of_nat by (metis option.inject)

lemma string_of_nat_hd: "\<exists>c r. string_of_nat n = c # r \<and> is_digit c"
  by (metis list.set_intros(1) neq_Nil_conv string_of_nat_digits string_of_nat_not_Nil)

lemma int_of_string_of_int [simp]: "int_of_string (string_of_int i) = Some i"
proof (cases "i < 0")
  case True
  then show ?thesis by (simp add: string_of_int_def int_of_string_def)
next
  case False
  obtain c r where cr: "string_of_nat (nat i) = c # r" and "is_digit c"
    using string_of_nat_hd by blast
  then have "c \<noteq> CHR ''-''" by (auto simp: is_digit_def)
  then have "int_of_string (string_of_int i) = map_option int (nat_of_string (string_of_nat (nat i)))"
    using False cr by (simp add: string_of_int_def int_of_string_def)
  also have "\<dots> = Some i" using False by simp
  finally show ?thesis .
qed

lemma digits_then:
  assumes "r = [] \<or> \<not> is_digit (hd r)"
  shows "takeWhile is_digit (string_of_nat n @ r) = string_of_nat n"
    and "dropWhile is_digit (string_of_nat n @ r) = r"
  using takeWhile_dropWhile_append [of "string_of_nat n" is_digit r] assms string_of_nat_digits by blast+

lemma string_of_int_no_brace: "CHR ''}'' \<notin> set (string_of_int i)"
proof
  assume "CHR ''}'' \<in> set (string_of_int i)"
  then have "\<exists>n. CHR ''}'' \<in> set (string_of_nat n)" by (auto simp: string_of_int_def split: if_splits)
  then show False using string_of_nat_digits by (fastforce simp: is_digit_def)
qed

lemma not_digit_lits [simp]:
  "\<not> is_digit CHR ''.''" "\<not> is_digit CHR '',''"
  by (simp_all add: is_digit_def)

lemma parse_variant_path_roundtrip: "parse_variant_path (variant_path v) = Some v"
proof -
  have m: "match_lit ''variants/'' (variant_path v) = Some (string_of_nat v @ ''.json'')"
    unfolding variant_path_def by (rule match_lit_append)
  have "''.json'' = [] \<or> \<not> is_digit (hd ''.json'')" by simp
  note d = digits_then [OF this, of v]
  show ?thesis by (simp only: parse_variant_path_def m option.case d) simp
qed

lemma parse_variant_body_roundtrip: "parse_variant_body (variant_body v p) = Some (v, p)"
proof -
  let ?sv = "string_of_nat v" and ?si = "string_of_int p"
  have m1: \<open>match_lit ''{"variant":{"id":'' (variant_body v p) = Some (?sv @ '',"position":'' @ ?si @ ''}}'')\<close>
    unfolding variant_body_def by (rule match_lit_append)
  have \<open>'',"position":'' @ ?si @ ''}}'' = [] \<or> \<not> is_digit (hd ('',"position":'' @ ?si @ ''}}''))\<close> by simp
  note d = digits_then [OF this, of v]
  have m2: \<open>match_lit '',"position":'' ('',"position":'' @ ?si @ ''}}'') = Some (?si @ ''}}'')\<close>
    by (rule match_lit_append)
  have nb: "\<forall>c \<in> set ?si. c \<noteq> CHR ''}''" using string_of_int_no_brace by blast
  have "''}}'' = [] \<or> \<not> (\<lambda>c. c \<noteq> CHR ''}'') (hd ''}}'')" by simp
  note b = takeWhile_dropWhile_append [OF nb this]
  show ?thesis by (simp only: parse_variant_body_def m1 option.case d m2 prod.case b) simp
qed

section \<open>Properties\<close>

text \<open>
  C24 (round trip of the update request, spec 6). The store reads the path
  \<^verbatim>\<open>variants/${variantId}.json\<close> and the body
  \<^verbatim>\<open>JSON.stringify({variant: {id, position}})\<close> that \<^verbatim>\<open>updateVariantPosition\<close>
  sends as exactly the variant id and the position it was called with, negative
  positions included.
\<close>

theorem put_request_roundtrip: "parse_put (variant_path v) (variant_body v p) = Some (v, p)"
  by (simp add: parse_put_def parse_variant_path_roundtrip parse_variant_body_roundtrip)

end
