(* ===== verification/Orchestrator.thy ===== *)
theory Orchestrator
  imports Pager Transport
begin

text \<open>
  The top level (\<^verbatim>\<open>src/index.js\<close>, lines 90--96): an async function that runs
  \<^verbatim>\<open>processAllProducts\<close> and, when it throws, logs the error once with
  \<^verbatim>\<open>console.error\<close>. The lemmas show two facts about every run, whatever the server
  does: writes are paced (each write that is followed by anything is followed by the
  1000 ms sleep) and only the top level reports errors; and every GET is a listing path
  of the API (\<open>listing_path\<close> of \<open>Transport\<close>).
\<close>

section \<open>Definitions\<close>

text \<open>
  \<^verbatim>\<open>(async () => { try { await processAllProducts(); } catch (error) { console.error(...); } })()\<close>:
  the history of the process (\<open>None\<close> when the loop never ends).
\<close>

definition main :: "transport \<Rightarrow> event list option" where
  "main T =
     (case processAllProducts T [] of
        None \<Rightarrow> None
      | Some (Inl e, tr) \<Rightarrow> Some (tr @ [EvError e])
      | Some (Inr _, tr) \<Rightarrow> Some tr)"

text \<open>Every write that is followed by another event is followed by the pacing sleep.\<close>

fun paced :: "event list \<Rightarrow> bool" where
  "paced (EvPut v p # e # es) = (e = EvSleep 1000 \<and> paced (e # es))"
| "paced (e # es) = paced es"
| "paced [] = True"

definition ends_put :: "event list \<Rightarrow> bool" where
  "ends_put tr \<longleftrightarrow> tr \<noteq> [] \<and> is_put (last tr)"

text \<open>
  The invariant of a run: paced, no error reported yet, and (a clause about the result)
  a history that ends with a write belongs to a run that failed.
\<close>

definition run_inv :: "event list \<Rightarrow> bool" where
  "run_inv tr \<longleftrightarrow> paced tr \<and> \<not> ends_put tr \<and> (\<forall>e \<in> set tr. \<not> is_error e)"

definition result_inv :: "(http_error + unit) \<Rightarrow> event list \<Rightarrow> bool" where
  "result_inv r tr \<longleftrightarrow> paced tr \<and> (ends_put tr \<longrightarrow> isl r) \<and> (\<forall>e \<in> set tr. \<not> is_error e)"

text \<open>The spec's end-to-end scenario (section 8): one page with the widget and no next link.\<close>

definition spec_page :: page where
  "spec_page = \<lparr>products = Some [spec_widget], link = None\<rparr>"

text \<open>The number of pages logged in a history.\<close>

definition pages :: "event list \<Rightarrow> nat" where
  "pages es = length (filter is_page es)"

section \<open>Lemmas\<close>

lemma paced_Cons: "paced (x # xs) \<longleftrightarrow> (is_put x \<and> xs \<noteq> [] \<longrightarrow> hd xs = EvSleep 1000) \<and> paced xs"
  by (cases x; cases xs) auto

lemma paced_append:
  "paced xs \<Longrightarrow> \<not> ends_put xs \<Longrightarrow> paced ys \<Longrightarrow> paced (xs @ ys)"
  by (induction xs) (auto simp: paced_Cons ends_put_def split: if_splits)

lemma paced_no_put: "\<forall>e \<in> set es. \<not> is_put e \<Longrightarrow> paced es"
  by (induction es) (auto simp: paced_Cons)

lemma ends_put_append [simp]: "ys \<noteq> [] \<Longrightarrow> ends_put (xs @ ys) = ends_put ys"
  by (simp add: ends_put_def)

lemma run_inv_append:
  assumes "run_inv tr" and "paced seg" and "seg \<noteq> []" and "\<not> is_put (last seg)"
    and "\<forall>e \<in> set seg. \<not> is_error e"
  shows "run_inv (tr @ seg)"
  using assms paced_append by (auto simp: run_inv_def ends_put_def)

lemma result_inv_append:
  assumes "run_inv tr" and "paced seg" and "seg \<noteq> [] \<Longrightarrow> is_put (last seg) \<Longrightarrow> isl r"
    and "\<forall>e \<in> set seg. \<not> is_error e"
  shows "result_inv r (tr @ seg)"
  using assms paced_append by (cases "seg = []") (auto simp: run_inv_def result_inv_def ends_put_def)

lemma result_inv_Inr: "result_inv (Inr u) tr \<longleftrightarrow> run_inv tr"
  by (simp add: result_inv_def run_inv_def)

lemma puts_zero_no_put: "puts es = 0 \<Longrightarrow> \<forall>e \<in> set es. \<not> is_put e"
  by (simp add: puts_def filter_empty_conv)

lemma backoff_no_error: "\<forall>e \<in> set (backoff_trace url d k). \<not> is_error e"
  by (auto simp: backoff_trace_def)

lemma retry_inv:
  assumes "run_inv tr" and "retryRequest T url n d tr = (r, tr')"
  shows "run_inv tr'"
proof -
  obtain k where "k \<le> n" and tr': "tr' = tr @ backoff_trace url d k @ [EvGet url]"
    using retry_shape [of n T url d tr] assms(2) by auto
  have "paced (backoff_trace url d k @ [EvGet url])"
    by (rule paced_no_put) (use puts_zero_no_put [OF puts_backoff_trace] in auto)
  show ?thesis unfolding tr' using assms(1) \<open>paced (backoff_trace url d k @ [EvGet url])\<close>
    by (rule run_inv_append) (auto simp: backoff_no_error)
qed

lemma check_inv:
  assumes "run_inv tr" and "checkAndReorderVariants T p tr = (r, tr')"
  shows "result_inv r tr'"
  using assms(2)
proof (cases rule: check_cases)
  case noop
  then show ?thesis using assms(1) by (simp add: result_inv_Inr)
qed (use assms(1) in \<open>auto intro!: result_inv_append\<close>)

lemma process_inv:
  "run_inv tr \<Longrightarrow> processProducts T ps tr = (r, tr') \<Longrightarrow> result_inv r tr'"
proof (induction ps arbitrary: tr)
  case Nil
  then show ?case by (auto simp: result_inv_Inr)
next
  case (Cons p ps)
  obtain r1 tr1 where c: "checkAndReorderVariants T p tr = (r1, tr1)" by fastforce
  have inv1: "result_inv r1 tr1" using Cons.prems(1) c by (rule check_inv)
  show ?case
  proof (cases r1)
    case (Inl e)
    then show ?thesis using Cons.prems(2) c inv1 by simp
  next
    case (Inr u)
    then show ?thesis using Cons.prems(2) c inv1 Cons.IH by (simp add: result_inv_Inr)
  qed
qed

text \<open>
  The loop keeps the invariant: induction over the fixpoint of the partial function
  (\<open>pageLoop.raw_induct\<close>), one case per branch of the loop body.
\<close>

lemma loop_inv:
  assumes ret: "pageLoop T url n tr = Some y"
  shows "run_inv tr \<longrightarrow> result_inv (fst y) (snd y)"
  using ret
proof (induction rule: loop_rule)
  case (fetch_fail url n tr e tr1)
  show ?case
  proof
    assume "run_inv tr"
    then have "run_inv tr1" using fetch_fail by (rule retry_inv)
    then show "result_inv (fst (Inl e, tr1)) (snd (Inl e, tr1))" by (simp add: run_inv_def result_inv_def)
  qed
next
  case (no_products url n tr pg tr1)
  then show ?case by (auto simp: result_inv_Inr intro: retry_inv)
next
  case (page_stop url n tr pg tr1 ps r tr2)
  show ?case
  proof
    assume "run_inv tr"
    then have "run_inv tr1" using page_stop(1) by (rule retry_inv)
    then have "run_inv (tr1 @ [EvPage (Suc n) (length ps)])" by (rule run_inv_append) simp_all
    then show "result_inv (fst (r, tr2)) (snd (r, tr2))" using page_stop(4) by (simp add: process_inv)
  qed
next
  case (next_page url n tr pg tr1 ps tr2 url' y)
  show ?case
  proof
    assume "run_inv tr"
    then have "run_inv tr1" using next_page(1) by (rule retry_inv)
    then have "run_inv (tr1 @ [EvPage (Suc n) (length ps)])" by (rule run_inv_append) simp_all
    then have "run_inv tr2" using process_inv [OF _ next_page(4)] by (simp add: result_inv_Inr)
    then show "result_inv (fst y) (snd y)" using next_page(6) by blast
  qed
qed

lemma all_products_inv:
  assumes "processAllProducts T [] = Some (r, tr)"
  shows "result_inv r tr"
proof -
  obtain y where y: "pageLoop T ''products.json?limit=250'' 0 [] = Some y"
    using assms by (auto simp: processAllProducts_def split: option.splits)
  have inv: "result_inv (fst y) (snd y)" using loop_inv [OF y] by (simp add: run_inv_def ends_put_def)
  show ?thesis
  proof (cases "fst y")
    case (Inl e)
    then show ?thesis using assms y inv by (cases y) (simp add: processAllProducts_def)
  next
    case (Inr u)
    then obtain tr0 where y0: "y = (Inr u, tr0)" by (cases y) simp
    then have "run_inv tr0" using inv by (simp add: result_inv_Inr)
    then have "run_inv (tr0 @ [EvFinished])" by (rule run_inv_append) simp_all
    moreover have "r = Inr ()" "tr = tr0 @ [EvFinished]"
      using assms y y0 by (simp_all add: processAllProducts_def)
    ultimately show ?thesis by (simp add: result_inv_Inr)
  qed
qed

text \<open>
  Requests of a run: the policy and the product loop issue no GET and log no page; the
  retrier issues at most six GETs; so every iteration of the page loop costs at most six
  GETs, and all but the last log a page.
\<close>

lemma check_no_get_page:
  assumes "checkAndReorderVariants T p tr = (r, tr')"
  shows "\<exists>seg. tr' = tr @ seg \<and> gets seg = 0 \<and> pages seg = 0"
  using assms by (cases rule: check_cases) (auto simp: pages_def)

lemma process_no_get_page:
  "processProducts T ps tr = (r, tr') \<Longrightarrow> \<exists>seg. tr' = tr @ seg \<and> gets seg = 0 \<and> pages seg = 0"
proof (induction ps arbitrary: tr)
  case Nil
  then show ?case by (auto simp: pages_def)
next
  case (Cons p ps)
  obtain r1 tr1 where c: "checkAndReorderVariants T p tr = (r1, tr1)" by fastforce
  then obtain seg1 where s1: "tr1 = tr @ seg1" "gets seg1 = 0" "pages seg1 = 0"
    using check_no_get_page by blast
  show ?case
  proof (cases r1)
    case (Inl e)
    then show ?thesis using Cons.prems c s1 by auto
  next
    case (Inr u)
    then have "processProducts T ps tr1 = (r, tr')" using Cons.prems c by simp
    then obtain seg2 where "tr' = tr1 @ seg2" "gets seg2 = 0" "pages seg2 = 0" using Cons.IH by blast
    then show ?thesis using s1 by (intro exI [of _ "seg1 @ seg2"]) (simp add: pages_def)
  qed
qed

lemma retry_gets_page:
  "retryRequest T url 5 1000 tr = (r, tr') \<Longrightarrow> \<exists>seg. tr' = tr @ seg \<and> gets seg \<le> 6 \<and> pages seg = 0"
proof -
  assume run: "retryRequest T url 5 1000 tr = (r, tr')"
  obtain k where "k \<le> 5" and tr': "tr' = tr @ backoff_trace url 1000 k @ [EvGet url]"
    using retry_shape [of 5 T url 1000 tr] run by auto
  moreover have "pages (backoff_trace url 1000 k) = 0"
    by (induction k) (auto simp: pages_def backoff_trace_def)
  ultimately show ?thesis by (intro exI [of _ "backoff_trace url 1000 k @ [EvGet url]"]) (simp add: pages_def)
qed

lemma loop_gets_bounded:
  assumes ret: "pageLoop T url n tr = Some y"
  shows "\<exists>seg. snd y = tr @ seg \<and> gets seg \<le> 6 * (pages seg + 1)"
  using ret
proof (induction rule: loop_rule)
  case (fetch_fail url n tr e tr1)
  then show ?case using retry_gets_page by fastforce
next
  case (no_products url n tr pg tr1)
  then show ?case using retry_gets_page by fastforce
next
  case (page_stop url n tr pg tr1 ps r tr2)
  obtain seg1 where "tr1 = tr @ seg1" "gets seg1 \<le> 6" "pages seg1 = 0"
    using retry_gets_page [OF page_stop(1)] by blast
  moreover obtain seg2 where "tr2 = (tr1 @ [EvPage (Suc n) (length ps)]) @ seg2" "gets seg2 = 0" "pages seg2 = 0"
    using process_no_get_page [OF page_stop(4)] by blast
  ultimately show ?case
    by (intro exI [of _ "seg1 @ EvPage (Suc n) (length ps) # seg2"]) (simp add: pages_def)
next
  case (next_page url n tr pg tr1 ps tr2 url' y)
  obtain seg1 where "tr1 = tr @ seg1" "gets seg1 \<le> 6" "pages seg1 = 0"
    using retry_gets_page [OF next_page(1)] by blast
  moreover obtain seg2 where "tr2 = (tr1 @ [EvPage (Suc n) (length ps)]) @ seg2" "gets seg2 = 0" "pages seg2 = 0"
    using process_no_get_page [OF next_page(4)] by blast
  moreover obtain seg3 where "snd y = tr2 @ seg3" "gets seg3 \<le> 6 * (pages seg3 + 1)"
    using next_page(6) by blast
  ultimately show ?case
    by (intro exI [of _ "seg1 @ EvPage (Suc n) (length ps) # seg2 @ seg3"]) (simp add: pages_def)
qed

section \<open>The paths a run requests\<close>

lemma backoff_gets: "EvGet u \<in> set (backoff_trace url d k) \<Longrightarrow> u = url"
  by (auto simp: backoff_trace_def split: if_splits)

lemma no_get_seg: "gets seg = 0 \<Longrightarrow> EvGet u \<notin> set seg"
  by (auto simp: gets_def filter_empty_conv)

lemma next_url_listing: "next_page_url h = Some u \<Longrightarrow> listing_path u"
proof -
  assume n: "next_page_url h = Some u"
  then obtain hh c where "h = Some hh" "link_match hh = Some c" "c \<noteq> []"
    and u: "u = ''products.json?limit=250&page_info='' @ c"
    by (auto simp: next_page_url_def split: option.splits if_splits)
  then have "CHR ''>'' \<notin> set c" using link_match_SomeD by blast
  then show ?thesis using u \<open>c \<noteq> []\<close> by (simp only: listing_path_def match_lit_append option.case) simp
qed

lemma retry_gets_listing:
  assumes "retryRequest T url 5 1000 tr = (r, tr1)"
  shows "listing_path url \<longrightarrow> (\<forall>u. EvGet u \<in> set tr \<longrightarrow> listing_path u)
         \<longrightarrow> (\<forall>u. EvGet u \<in> set tr1 \<longrightarrow> listing_path u)"
proof -
  obtain k where "tr1 = tr @ backoff_trace url 1000 k @ [EvGet url]"
    using retry_shape [of 5 T url 1000 tr] assms by auto
  then show ?thesis by (auto dest: backoff_gets)
qed

lemma process_gets_same:
  assumes "processProducts T ps (tr1 @ [EvPage m k]) = (r, tr2)"
  shows "(\<forall>u. EvGet u \<in> set tr2 \<longrightarrow> P u) \<longleftrightarrow> (\<forall>u. EvGet u \<in> set tr1 \<longrightarrow> P u)"
proof -
  obtain seg where "tr2 = (tr1 @ [EvPage m k]) @ seg" "gets seg = 0"
    using process_no_get_page [OF assms] by blast
  then show ?thesis using no_get_seg by auto
qed

lemma loop_get_paths:
  assumes ret: "pageLoop T url n tr = Some y"
  shows "listing_path url \<longrightarrow> (\<forall>u. EvGet u \<in> set tr \<longrightarrow> listing_path u)
         \<longrightarrow> (\<forall>u. EvGet u \<in> set (snd y) \<longrightarrow> listing_path u)"
  using ret
proof (induction rule: loop_rule)
  case (fetch_fail url n tr e tr1)
  then show ?case using retry_gets_listing by simp
next
  case (no_products url n tr pg tr1)
  then show ?case using retry_gets_listing by simp
next
  case (page_stop url n tr pg tr1 ps r tr2)
  then show ?case using retry_gets_listing process_gets_same by (metis snd_conv)
next
  case (next_page url n tr pg tr1 ps tr2 url' y)
  then show ?case using retry_gets_listing process_gets_same next_url_listing by metis
qed

lemma run_get_paths:
  assumes "processAllProducts T [] = Some (r, tr)" and "EvGet u \<in> set tr"
  shows "listing_path u"
proof (cases "pageLoop T ''products.json?limit=250'' 0 []")
  case None
  then show ?thesis using assms(1) by (simp add: processAllProducts_def)
next
  case (Some y)
  then have tr: "set tr \<subseteq> set (snd y) \<union> {EvFinished}"
    using assms(1) by (cases y) (auto simp: processAllProducts_def split: sum.splits)
  have "listing_path ''products.json?limit=250''" by (simp add: listing_path_def)
  then show ?thesis using loop_get_paths [OF Some] assms(2) tr by auto
qed

section \<open>The spec's scenario\<close>

lemma spec_page_run:
  "processAllProducts (scripted [spec_page]) [] =
     Some (Inr (), [EvGet ''products.json?limit=250'', EvPage 1 1,
                    EvReorder 1 ''Widget'' 1 2, EvPut 11 1, EvSleep 1000, EvPut 10 2, EvSleep 1000,
                    EvReorderDone, EvFinished])"
proof -
  let ?T = "scripted [spec_page]"
  let ?u = "''products.json?limit=250''"
  let ?tr1 = "[EvGet ?u, EvPage 1 1]"
  have r: "retryRequest ?T ?u 5 1000 [] = (Inr spec_page, [] @ [EvGet ?u])"
    by (simp add: retry_Ok scripted_get)
  have c: "checkAndReorderVariants ?T spec_widget ?tr1 =
     (Inr (), ?tr1 @ [EvReorder (pid spec_widget) (ptitle spec_widget) 1 2, EvPut 11 1, EvSleep 1000,
                      EvPut 10 2, EvSleep 1000, EvReorderDone])"
    using check_swap [OF widget_sample widget_bolt, of ?T ?tr1] by (simp add: scripted_def)
  have p: "processProducts ?T [spec_widget] (([] @ [EvGet ?u]) @ [EvPage (Suc 0) (length [spec_widget])]) =
     (Inr (), ?tr1 @ [EvReorder 1 ''Widget'' 1 2, EvPut 11 1, EvSleep 1000,
                      EvPut 10 2, EvSleep 1000, EvReorderDone])"
    using c by (simp add: spec_widget_def)
  have "pageLoop ?T ?u 0 [] =
     Some (Inr (), ?tr1 @ [EvReorder 1 ''Widget'' 1 2, EvPut 11 1, EvSleep 1000,
                           EvPut 10 2, EvSleep 1000, EvReorderDone])"
    using loop_last_page [OF r _ _ p] by (simp add: spec_page_def next_page_url_def)
  then show ?thesis by (simp add: processAllProducts_def)
qed

end
