(* ===== verification/Link_Grammar.thy ===== *)
theory Link_Grammar
  imports Link_Header
begin

text \<open>
  The reading of the \<^verbatim>\<open>link\<close> header that spec section 9 asks for in place of the
  regular expression of \<^verbatim>\<open>src/index.js\<close> line 51: a structured parse of the
  multi-valued link grammar (\<^verbatim>\<open><uri>; rel="r"\<close> entries separated by commas) into
  relation/URI pairs, the URI of the \<open>next\<close> relation, and its \<open>page_info\<close> query
  parameter. The headers Shopify sends are printed from a list of entries
  (\<open>shopify_header\<close>). The lemmas show that the parse reads back every printed
  header (a round trip), and that on these headers, in either order of the
  \<open>previous\<close> and \<open>next\<close> entries, the pager's regular expression and the
  structured reading give the same next path (an equivalence, C28), and that on a header
  whose \<open>next\<close> URL has no cursor after a \<open>previous\<close> one that has, the pattern takes
  the \<open>previous\<close> cursor where the structured reading stops (C15).
\<close>

section \<open>The structured reading\<close>

text \<open>The one link parameter Shopify sends, \<^verbatim>\<open>; rel="r"\<close>.\<close>

definition rel_param :: "string \<Rightarrow> string option" where
  \<open>rel_param p =
     (case match_lit ''; rel="'' p of
        None \<Rightarrow> None
      | Some r \<Rightarrow>
          if r \<noteq> [] \<and> last r = CHR ''"'' \<and> CHR ''"'' \<notin> set (butlast r) then Some (butlast r) else None)\<close>

definition link_sep :: "char \<Rightarrow> bool" where
  "link_sep x \<longleftrightarrow> x = CHR '' '' \<or> x = CHR '',''"

text \<open>
  \<open>link-value = "<" URI-Reference ">" params\<close>, the values separated by commas and
  spaces; the URI runs to the first \<open>>\<close>, the parameters to the next comma.
\<close>

function link_values :: "string \<Rightarrow> (string \<times> string) list option" where
  "link_values s =
     (case dropWhile link_sep s of
        [] \<Rightarrow> Some []
      | c # r \<Rightarrow>
          if c \<noteq> CHR ''<'' then None
          else
            (case dropWhile (\<lambda>x. x \<noteq> CHR ''>'') r of
               [] \<Rightarrow> None
             | _ # r2 \<Rightarrow>
                 (case rel_param (takeWhile (\<lambda>x. x \<noteq> CHR '','') r2) of
                    None \<Rightarrow> None
                  | Some rel \<Rightarrow>
                      map_option (Cons (rel, takeWhile (\<lambda>x. x \<noteq> CHR ''>'') r))
                        (link_values (dropWhile (\<lambda>x. x \<noteq> CHR '','') r2)))))"
  by pat_completeness auto

termination
proof (relation "measure length")
  fix s c r x r2
  assume s: "dropWhile link_sep s = c # r" and r: "dropWhile (\<lambda>x. x \<noteq> CHR ''>'') r = x # r2"
  have "length (dropWhile (\<lambda>x. x \<noteq> CHR '','') r2) \<le> length r2" by (rule length_dropWhile_le)
  also have "length r2 < length r" using r by (rule dropWhile_Cons_shorter)
  also have "length r < length s" using s by (rule dropWhile_Cons_shorter)
  finally show "(dropWhile (\<lambda>x. x \<noteq> CHR '','') r2, s) \<in> measure length" by simp
qed simp

declare link_values.simps [simp del]

text \<open>Splitting a query string at \<open>&\<close>.\<close>

fun split_on :: "char \<Rightarrow> string \<Rightarrow> string list" where
  "split_on d [] = [[]]"
| "split_on d (x # xs) =
     (if x = d then [] # split_on d xs
      else (case split_on d xs of y # ys \<Rightarrow> (x # y) # ys | [] \<Rightarrow> [[x]]))"

text \<open>The value of the first parameter \<open>name\<close> of the query of \<open>url\<close>.\<close>

definition query_param :: "string \<Rightarrow> string \<Rightarrow> string option" where
  "query_param name url =
     map_option (drop (Suc (length name)))
       (find (\<lambda>kv. take (Suc (length name)) kv = name @ ''='')
          (split_on CHR ''&'' (drop 1 (dropWhile (\<lambda>x. x \<noteq> CHR ''?'') url))))"

text \<open>The next path by the structured reading, with the code's guards.\<close>

definition structured_next_url :: "string option \<Rightarrow> string option" where
  "structured_next_url linkHeader =
     (case linkHeader of
        None \<Rightarrow> None
      | Some h \<Rightarrow>
          (case link_values h of
             None \<Rightarrow> None
           | Some es \<Rightarrow>
               (case map_of es ''next'' of
                  None \<Rightarrow> None
                | Some url \<Rightarrow>
                    (case query_param ''page_info'' url of
                       None \<Rightarrow> None
                     | Some c \<Rightarrow> if c = [] then None else Some (''products.json?limit=250&page_info='' @ c)))))"

section \<open>The headers Shopify sends\<close>

text \<open>
  One entry per relation, each a listing URL on the shop's base URL with a cursor; the
  cursors are URL-safe base64 (letters, digits, \<open>-\<close> and \<open>_\<close>).
\<close>

definition shopify_url :: "string \<Rightarrow> string \<Rightarrow> string" where
  "shopify_url base cur = base @ ''products.json?limit=250&page_info='' @ cur"

definition link_entry :: "string \<times> string \<Rightarrow> string" where
  \<open>link_entry e = ''<'' @ snd e @ ''>; rel="'' @ fst e @ ''"''\<close>

fun join_entries :: "string list \<Rightarrow> string" where
  "join_entries [] = []"
| "join_entries [e] = e"
| "join_entries (e # es) = e @ '', '' @ join_entries es"

definition print_links :: "(string \<times> string) list \<Rightarrow> string" where
  "print_links es = join_entries (map link_entry es)"

definition shopify_header :: "string \<Rightarrow> (string \<times> string) list \<Rightarrow> string" where
  "shopify_header base es = print_links (map (\<lambda>(rel, cur). (rel, shopify_url base cur)) es)"

definition cursor_char :: "char \<Rightarrow> bool" where
  "cursor_char x \<longleftrightarrow>
     (let n = (of_char x :: nat) in
      (48 \<le> n \<and> n \<le> 57) \<or> (65 \<le> n \<and> n \<le> 90) \<or> (97 \<le> n \<and> n \<le> 122) \<or> n = 45 \<or> n = 95)"

definition cursor_ok :: "string \<Rightarrow> bool" where
  "cursor_ok c \<longleftrightarrow> c \<noteq> [] \<and> (\<forall>x \<in> set c. cursor_char x)"

text \<open>A base URL with no line break, \<open>>\<close>, \<open>?\<close> or comma.\<close>

definition base_ok :: "string \<Rightarrow> bool" where
  "base_ok base \<longleftrightarrow>
     (\<forall>x \<in> set base. js_dot x \<and> x \<noteq> CHR ''>'' \<and> x \<noteq> CHR ''?'' \<and> x \<noteq> CHR '','')"

section \<open>Lemmas\<close>

lemma dropWhile_idem: "dropWhile P (dropWhile P xs) = dropWhile P xs"
  by (induction xs) auto

lemma link_values_dropWhile: "link_values (dropWhile link_sep s) = link_values s"
  by (subst (1 2) link_values.simps) (simp only: dropWhile_idem)

lemma link_values_Nil [simp]: "link_values [] = Some []"
  by (subst link_values.simps) simp

lemma link_values_sep: "link_values (CHR '','' # CHR '' '' # s) = link_values s"
proof -
  have "dropWhile link_sep (CHR '','' # CHR '' '' # s) = dropWhile link_sep s" by (simp add: link_sep_def)
  then show ?thesis by (metis link_values_dropWhile)
qed

lemma rel_param_print: \<open>CHR ''"'' \<notin> set rel \<Longrightarrow> rel_param (''; rel="'' @ rel @ ''"'') = Some rel\<close>
proof -
  assume q: \<open>CHR ''"'' \<notin> set rel\<close>
  have m: \<open>match_lit ''; rel="'' (''; rel="'' @ rel @ ''"'') = Some (rel @ ''"'')\<close> by (rule match_lit_append)
  show ?thesis unfolding rel_param_def m using q by simp
qed

text \<open>One printed entry, followed by nothing or by a comma, is read back.\<close>

lemma link_values_entry:
  assumes url: "CHR ''>'' \<notin> set url" and rel: "CHR '','' \<notin> set rel" \<open>CHR ''"'' \<notin> set rel\<close>
    and rest: "rest = [] \<or> hd rest = CHR '',''"
  shows "link_values (link_entry (rel, url) @ rest) = map_option (Cons (rel, url)) (link_values rest)"
proof -
  define Q where \<open>Q = ''; rel="'' @ rel @ ''"''\<close>
  have e: "link_entry (rel, url) @ rest = CHR ''<'' # url @ CHR ''>'' # Q @ rest"
    by (simp add: link_entry_def Q_def)
  have d1: "dropWhile link_sep (CHR ''<'' # url @ CHR ''>'' # Q @ rest) = CHR ''<'' # url @ CHR ''>'' # Q @ rest"
    by (simp add: link_sep_def)
  have u: "takeWhile (\<lambda>x. x \<noteq> CHR ''>'') (url @ CHR ''>'' # Q @ rest) = url"
    "dropWhile (\<lambda>x. x \<noteq> CHR ''>'') (url @ CHR ''>'' # Q @ rest) = CHR ''>'' # Q @ rest"
    using url by (intro takeWhile_dropWhile_append; auto)+
  have "\<forall>x \<in> set Q. x \<noteq> CHR '',''" using rel by (auto simp: Q_def)
  then have p: "takeWhile (\<lambda>x. x \<noteq> CHR '','') (Q @ rest) = Q" "dropWhile (\<lambda>x. x \<noteq> CHR '','') (Q @ rest) = rest"
    using rest by (intro takeWhile_dropWhile_append; auto)+
  have r: "rel_param Q = Some rel" unfolding Q_def using rel(2) by (rule rel_param_print)
  show ?thesis by (subst link_values.simps) (simp only: e d1 list.case u p r option.case if_False refl not_True_eq_False)
qed

lemma link_entry_Cons: "\<exists>r. link_entry e = CHR ''<'' # r"
  by (simp add: link_entry_def)

text \<open>The round trip of the link grammar: every printed list of entries is read back.\<close>

lemma link_values_print:
  assumes \<open>\<forall>e \<in> set es. CHR ''>'' \<notin> set (snd e) \<and> CHR '','' \<notin> set (fst e) \<and> CHR ''"'' \<notin> set (fst e)\<close>
  shows "link_values (print_links es) = Some es"
  using assms
proof (induction es)
  case Nil
  then show ?case by (simp add: print_links_def)
next
  case (Cons e es)
  obtain rel url where e: "e = (rel, url)" by fastforce
  show ?case
  proof (cases es)
    case Nil
    then show ?thesis using Cons.prems link_values_entry [of url rel "[]"] by (simp add: print_links_def e)
  next
    case (Cons e' es')
    obtain r where r: "link_entry e' = CHR ''<'' # r" using link_entry_Cons by blast
    have pl: "print_links (e # es) = link_entry (rel, url) @ ('', '' @ print_links es)"
      using Cons by (simp add: print_links_def e)
    have "link_values (print_links (e # es)) = map_option (Cons (rel, url)) (link_values (print_links es))"
      unfolding pl using Cons.prems e by (subst link_values_entry) (auto simp: link_values_sep)
    then show ?thesis using Cons.IH Cons.prems e by simp
  qed
qed

lemma split_on_free: "d \<notin> set xs \<Longrightarrow> split_on d xs = [xs]"
  by (induction xs) auto

lemma split_on_append: "d \<notin> set xs \<Longrightarrow> split_on d (xs @ d # ys) = xs # split_on d ys"
  by (induction xs) (auto split: list.split)

lemma cursor_char_plain:
  "cursor_char x \<Longrightarrow> x \<noteq> CHR ''>'' \<and> x \<noteq> CHR ''&'' \<and> x \<noteq> CHR '','' \<and> x \<noteq> CHR ''='' \<and> x \<noteq> CHR ''?'' \<and> js_dot x"
  by (auto simp: cursor_char_def js_dot_def)

lemma query_param_shopify:
  assumes "base_ok base" and "cursor_ok cur"
  shows "query_param ''page_info'' (shopify_url base cur) = Some cur"
proof -
  have b: "\<forall>x \<in> set (base @ ''products.json''). x \<noteq> CHR ''?''" using assms(1) by (auto simp: base_ok_def)
  have "shopify_url base cur = (base @ ''products.json'') @ (''?limit=250&page_info='' @ cur)"
    by (simp add: shopify_url_def)
  then have "dropWhile (\<lambda>x. x \<noteq> CHR ''?'') (shopify_url base cur) = ''?limit=250&page_info='' @ cur"
    using takeWhile_dropWhile_append(2) [OF b] by simp
  then have q: "drop 1 (dropWhile (\<lambda>x. x \<noteq> CHR ''?'') (shopify_url base cur)) = ''limit=250'' @ CHR ''&'' # (''page_info='' @ cur)"
    by simp
  have n2: "CHR ''&'' \<notin> set (''page_info='' @ cur)" using assms(2) cursor_char_plain by (auto simp: cursor_ok_def)
  have n1: "CHR ''&'' \<notin> set ''limit=250''" by simp
  have "split_on CHR ''&'' (''limit=250'' @ CHR ''&'' # (''page_info='' @ cur))
        = ''limit=250'' # split_on CHR ''&'' (''page_info='' @ cur)" by (rule split_on_append [OF n1])
  also have "split_on CHR ''&'' (''page_info='' @ cur) = [''page_info='' @ cur]" using n2 by (rule split_on_free)
  finally have "split_on CHR ''&'' (''limit=250'' @ CHR ''&'' # (''page_info='' @ cur)) = [''limit=250'', ''page_info='' @ cur]" .
  then show ?thesis unfolding query_param_def q by simp
qed

text \<open>The structured reading of a printed Shopify header: the cursor of its \<open>next\<close> entry.\<close>

lemma structured_shopify:
  assumes "base_ok base"
    and rels: \<open>\<forall>e \<in> set es. cursor_ok (snd e) \<and> CHR '','' \<notin> set (fst e) \<and> CHR ''"'' \<notin> set (fst e)\<close>
  shows "structured_next_url (Some (shopify_header base es))
         = map_option (\<lambda>c. ''products.json?limit=250&page_info='' @ c) (map_of es ''next'')"
proof -
  let ?es = "map (\<lambda>(rel, cur). (rel, shopify_url base cur)) es"
  have "\<forall>e \<in> set ?es. CHR ''>'' \<notin> set (snd e) \<and> CHR '','' \<notin> set (fst e) \<and> CHR ''\"'' \<notin> set (fst e)"
    using assms cursor_char_plain by (fastforce simp: base_ok_def cursor_ok_def shopify_url_def)
  then have lv: "link_values (shopify_header base es) = Some ?es"
    unfolding shopify_header_def by (rule link_values_print)
  have mo: "map_of ?es ''next'' = map_option (shopify_url base) (map_of es ''next'')"
    by (simp add: map_of_map)
  show ?thesis
  proof (cases "map_of es ''next''")
    case None
    then show ?thesis using lv mo by (simp add: structured_next_url_def)
  next
    case (Some c)
    then have "cursor_ok c" using rels map_of_SomeD by fastforce
    then show ?thesis using lv mo Some query_param_shopify [OF assms(1)]
      by (simp add: structured_next_url_def cursor_ok_def)
  qed
qed

lemma cursor_no_page_info:
  assumes "cursor_ok c"
  shows "\<not> sublist ''page_info='' c"
proof
  assume "sublist ''page_info='' c"
  then have "CHR ''='' \<in> set c" using set_mono_sublist by fastforce
  then show False using assms cursor_char_plain by (auto simp: cursor_ok_def)
qed

lemma cursor_js_dot: "cursor_ok c \<Longrightarrow> x \<in> set c \<Longrightarrow> js_dot x \<and> x \<noteq> CHR ''>''"
  using cursor_char_plain by (auto simp: cursor_ok_def)

lemma base_js_dot: "base_ok base \<Longrightarrow> x \<in> set base \<Longrightarrow> js_dot x \<and> x \<noteq> CHR ''>''"
  by (simp add: base_ok_def)

lemma next_url_of_match:
  "link_match h = Some c \<Longrightarrow> c \<noteq> [] \<Longrightarrow> h \<noteq> [] \<Longrightarrow>
   next_page_url (Some h) = Some (''products.json?limit=250&page_info='' @ c)"
  by (simp add: next_page_url_def)

lemma next_url_no_match: "\<not> sublist rel_next_lit h \<Longrightarrow> next_page_url (Some h) = None"
  by (simp add: next_page_url_def link_match_needs_rel_next split: option.split)

text \<open>The three shapes of a Shopify header that have entries, read by the pattern.\<close>

lemma regex_previous_only:
  assumes "base_ok base" and "cursor_ok p"
  shows "next_page_url (Some (link_entry (''previous'', shopify_url base p))) = None"
proof -
  let ?a = "''<'' @ shopify_url base p"
  have \<open>link_entry (''previous'', shopify_url base p) = ?a @ CHR ''>'' # ''; rel="previous"''\<close>
    by (simp add: link_entry_def)
  moreover have "CHR ''>'' \<notin> set ?a"
    using base_js_dot [OF assms(1)] cursor_js_dot [OF assms(2)] by (auto simp: shopify_url_def)
  ultimately have "\<not> sublist rel_next_lit (link_entry (''previous'', shopify_url base p))"
    using no_rel_next [of ?a] by simp
  then show ?thesis by (rule next_url_no_match)
qed

lemma regex_next_last:
  assumes "base_ok base" and "cursor_ok c" and "pre = [] \<or> (\<exists>p. cursor_ok p \<and> pre = link_entry (''previous'', shopify_url base p) @ '', '')"
  shows "next_page_url (Some (pre @ link_entry (''next'', shopify_url base c)))
         = Some (''products.json?limit=250&page_info='' @ c)"
proof -
  let ?q = "''products.json?limit=250&''"
  obtain u where h: "pre @ link_entry (''next'', shopify_url base c) = ''<'' @ u @ ''page_info='' @ c @ rel_next_lit @ []"
    and u: "\<forall>x \<in> set u. js_dot x"
    using assms(3)
  proof
    assume "pre = []"
    then have "pre @ link_entry (''next'', shopify_url base c) = ''<'' @ (base @ ?q) @ ''page_info='' @ c @ rel_next_lit @ []"
      by (simp add: link_entry_def shopify_url_def rel_next_lit_def)
    moreover have "\<forall>x \<in> set (base @ ?q). js_dot x" using base_js_dot [OF assms(1)] by (auto simp: js_dot_def)
    ultimately show ?thesis by (rule that)
  next
    assume "\<exists>p. cursor_ok p \<and> pre = link_entry (''previous'', shopify_url base p) @ '', ''"
    then obtain p where p: "cursor_ok p" and pre: "pre = link_entry (''previous'', shopify_url base p) @ '', ''" by blast
    let ?u = \<open>shopify_url base p @ ''>; rel="previous", <'' @ base @ ?q\<close>
    have "pre @ link_entry (''next'', shopify_url base c) = ''<'' @ ?u @ ''page_info='' @ c @ rel_next_lit @ []"
      by (simp add: pre link_entry_def shopify_url_def rel_next_lit_def)
    moreover have "\<forall>x \<in> set ?u. js_dot x"
      using base_js_dot [OF assms(1)] cursor_js_dot [OF p] by (auto simp: js_dot_def shopify_url_def)
    ultimately show ?thesis by (rule that)
  qed
  have "link_match (pre @ link_entry (''next'', shopify_url base c)) = Some c"
    unfolding h using u cursor_js_dot [OF assms(2)] cursor_no_page_info [OF assms(2)]
    by (intro link_match_next_entry) (auto simp: rel_next_lit_def)
  moreover have "c \<noteq> []" using assms(2) by (simp add: cursor_ok_def)
  ultimately show ?thesis by (intro next_url_of_match) (simp_all add: link_entry_def)
qed

lemma regex_next_first:
  assumes "base_ok base" and "cursor_ok c" and "cursor_ok p"
  shows "next_page_url (Some (link_entry (''next'', shopify_url base c) @ '', '' @ link_entry (''previous'', shopify_url base p)))
         = Some (''products.json?limit=250&page_info='' @ c)"
proof -
  let ?q = "''products.json?limit=250&''"
  let ?a = "'', <'' @ shopify_url base p"
  let ?t = \<open>?a @ CHR ''>'' # ''; rel="previous"''\<close>
  have h: "link_entry (''next'', shopify_url base c) @ '', '' @ link_entry (''previous'', shopify_url base p)
           = ''<'' @ (base @ ?q) @ ''page_info='' @ c @ rel_next_lit @ ?t"
    by (simp add: link_entry_def shopify_url_def rel_next_lit_def)
  have "CHR ''>'' \<notin> set ?a"
    using base_js_dot [OF assms(1)] cursor_js_dot [OF assms(3)] by (auto simp: shopify_url_def)
  then have t: "\<not> sublist rel_next_lit ?t" by (rule no_rel_next) simp_all
  have "\<forall>x \<in> set (base @ ?q). js_dot x" using base_js_dot [OF assms(1)] by (auto simp: js_dot_def)
  then have "link_match (''<'' @ (base @ ?q) @ ''page_info='' @ c @ rel_next_lit @ ?t) = Some c"
    using cursor_js_dot [OF assms(2)] cursor_no_page_info [OF assms(2)] t
    by (intro link_match_next_entry) auto
  moreover have "c \<noteq> []" using assms(2) by (simp add: cursor_ok_def)
  ultimately show ?thesis unfolding h by (intro next_url_of_match) simp_all
qed

lemma shopify_shapes:
  assumes rels: "\<forall>e \<in> set es. fst e \<in> {''previous'', ''next''}" and d: "distinct (map fst es)"
  shows "es = [] \<or> (\<exists>p. es = [(''previous'', p)]) \<or> (\<exists>c. es = [(''next'', c)])
         \<or> (\<exists>p c. es = [(''previous'', p), (''next'', c)]) \<or> (\<exists>p c. es = [(''next'', c), (''previous'', p)])"
proof -
  have "card (set (map fst es)) = length es" using distinct_card [OF d] by simp
  moreover have "card (set (map fst es)) \<le> card {''previous'', ''next''}" using rels by (intro card_mono) auto
  ultimately have len: "length es \<le> 2" by simp
  show ?thesis
  proof (cases es)
    case (Cons e1 es1)
    show ?thesis
    proof (cases es1)
      case (Cons e2 es2)
      then have "es2 = []" using len \<open>es = e1 # es1\<close> by simp
      then show ?thesis using rels d \<open>es = e1 # es1\<close> Cons by (cases e1; cases e2) auto
    qed (use rels Cons in \<open>cases e1; auto\<close>)
  qed simp
qed

lemma regex_shopify:
  assumes b: "base_ok base" and es: "\<forall>e \<in> set es. cursor_ok (snd e) \<and> fst e \<in> {''previous'', ''next''}"
    and d: "distinct (map fst es)"
  shows "next_page_url (Some (shopify_header base es))
         = map_option (\<lambda>c. ''products.json?limit=250&page_info='' @ c) (map_of es ''next'')"
proof -
  have sh1: "shopify_header base [(r, x)] = link_entry (r, shopify_url base x)" for r x
    by (simp add: shopify_header_def print_links_def)
  have sh2: "shopify_header base [(r, x), (r', y)] = link_entry (r, shopify_url base x) @ '', '' @ link_entry (r', shopify_url base y)"
    for r x r' y by (simp add: shopify_header_def print_links_def)
  consider "es = []" | p where "es = [(''previous'', p)]" | c where "es = [(''next'', c)]"
    | p c where "es = [(''previous'', p), (''next'', c)]" | p c where "es = [(''next'', c), (''previous'', p)]"
    using shopify_shapes [of es] es d by auto
  then show ?thesis
  proof cases
    case 1
    then show ?thesis by (simp add: shopify_header_def print_links_def next_page_url_def)
  next
    case 2
    then show ?thesis using regex_previous_only [OF b] es by (simp add: sh1)
  next
    case 3
    then show ?thesis using regex_next_last [OF b, of _ "[]"] es by (simp add: sh1)
  next
    case (4 p c)
    have pc: "cursor_ok p" "cursor_ok c" using es 4 by simp_all
    have "link_entry (''previous'', shopify_url base p) @ '', '' = [] \<or>
          (\<exists>p'. cursor_ok p' \<and> link_entry (''previous'', shopify_url base p) @ '', ''
                              = link_entry (''previous'', shopify_url base p') @ '', '')"
      using pc by blast
    then have "next_page_url (Some ((link_entry (''previous'', shopify_url base p) @ '', '')
                 @ link_entry (''next'', shopify_url base c))) = Some (''products.json?limit=250&page_info='' @ c)"
      by (rule regex_next_last [OF b pc(2)])
    then show ?thesis using 4 by (simp add: sh2)
  next
    case (5 p c)
    then show ?thesis using regex_next_first [OF b] es by (simp add: sh2)
  qed
qed

text \<open>No \<open>page_info=\<close> in the text after the cursor of a \<open>previous\<close> entry.\<close>

lemma no_page_info_sep:
  "\<not> sublist ''page_info='' a \<Longrightarrow> \<not> sublist ''page_info='' b \<Longrightarrow> x \<notin> set ''page_info=''
   \<Longrightarrow> \<not> sublist ''page_info='' (a @ x # b)"
  using sublist_sep [of x "''page_info=''" a b] by blast

lemma previous_then_next_no_page_info:
  assumes "cursor_ok p" and "\<not> sublist ''page_info='' n"
  shows \<open>\<not> sublist ''page_info='' (p @ (''>; rel="previous", <'' @ n) @ rel_next_lit @ [])\<close>
proof -
  define k1 where \<open>k1 = ''; rel="previous", ''\<close>
  define k2 where \<open>k2 = ''; rel="next"''\<close>
  have n1: "\<not> sublist ''page_info='' k1" and n2: "\<not> sublist ''page_info='' k2"
    by (simp_all add: k1_def k2_def str_includes_sublist [symmetric])
  have gt: "CHR ''>'' \<notin> set ''page_info=''" and lt: "CHR ''<'' \<notin> set ''page_info=''" by simp_all
  have "\<not> sublist ''page_info='' (n @ CHR ''>'' # k2)"
    using assms(2) n2 gt by (rule no_page_info_sep)
  then have "\<not> sublist ''page_info='' (k1 @ CHR ''<'' # n @ CHR ''>'' # k2)"
    using n1 lt by (intro no_page_info_sep [of k1 "n @ CHR ''>'' # k2"])
  then have "\<not> sublist ''page_info='' (p @ CHR ''>'' # k1 @ CHR ''<'' # n @ CHR ''>'' # k2)"
    using cursor_no_page_info [OF assms(1)] gt by (intro no_page_info_sep [of p "k1 @ CHR ''<'' # n @ CHR ''>'' # k2"])
  moreover have \<open>p @ (''>; rel="previous", <'' @ n) @ rel_next_lit @ [] = p @ CHR ''>'' # k1 @ CHR ''<'' # n @ CHR ''>'' # k2\<close>
    by (simp add: k1_def k2_def rel_next_lit_def)
  ultimately show ?thesis by simp
qed

text \<open>The structured reading finds no cursor in a \<open>next\<close> URL without \<open>page_info=\<close>.\<close>

lemma split_on_sublist:
  "prefix (hd (split_on d xs)) xs \<and> (\<forall>kv \<in> set (split_on d xs). sublist kv xs)"
proof (induction xs)
  case (Cons x xs)
  then show ?case
    by (cases "split_on d xs") (auto simp: sublist_Cons_right)
qed simp

lemma query_param_sublist:
  assumes "query_param name url = Some v"
  shows "sublist (name @ ''='') url"
proof -
  let ?q = "drop 1 (dropWhile (\<lambda>x. x \<noteq> CHR ''?'') url)"
  obtain kv where f: "find (\<lambda>kv. take (Suc (length name)) kv = name @ ''='') (split_on CHR ''&'' ?q) = Some kv"
    using assms by (auto simp: query_param_def)
  then have "kv \<in> set (split_on CHR ''&'' ?q)" and t: "take (Suc (length name)) kv = name @ ''=''"
    by (auto simp: find_Some_iff)
  then have "sublist kv ?q" using split_on_sublist by blast
  also have "sublist ?q url"
    by (metis suffix_imp_sublist suffix_drop suffix_dropWhile suffix_order.trans)
  finally have "sublist kv url" .
  moreover have "prefix (name @ ''='') kv" using t by (metis take_is_prefix)
  ultimately show ?thesis by (meson prefix_imp_sublist sublist_order.order_trans)
qed

lemma structured_previous_next:
  assumes "base_ok base" and "cursor_ok p"
    and "\<forall>x \<in> set n. js_dot x \<and> x \<noteq> CHR ''>''" and "\<not> sublist ''page_info='' n"
  shows "structured_next_url (Some (link_entry (''previous'', shopify_url base p) @ '', '' @ link_entry (''next'', n))) = None"
proof -
  let ?es = "[(''previous'', shopify_url base p), (''next'', n)]"
  have h: "link_entry (''previous'', shopify_url base p) @ '', '' @ link_entry (''next'', n) = print_links ?es"
    by (simp add: print_links_def)
  have "\<forall>e \<in> set ?es. CHR ''>'' \<notin> set (snd e) \<and> CHR '','' \<notin> set (fst e) \<and> CHR ''\"'' \<notin> set (fst e)"
    using assms(1-3) cursor_js_dot [OF assms(2)] by (auto simp: base_ok_def shopify_url_def)
  then have "link_values (print_links ?es) = Some ?es" by (rule link_values_print)
  moreover have "query_param ''page_info'' n = None"
    using assms(4) query_param_sublist [of "''page_info''" n] by (cases "query_param ''page_info'' n") auto
  ultimately show ?thesis unfolding h by (simp add: structured_next_url_def)
qed

section \<open>Properties\<close>

text \<open>
  C28 (round trip of the pager's link reading, spec 6). A Shopify \<^verbatim>\<open>link\<close> header
  printed from a \<open>previous\<close> and/or \<open>next\<close> cursor, in either order, is read back by
  the regular expression of \<open>processAllProducts\<close>: the next request carries exactly the
  cursor of the \<open>next\<close> entry, and there is none when the header has no such entry.
\<close>

theorem link_header_roundtrip:
  assumes "base_ok base" and "\<forall>e \<in> set es. cursor_ok (snd e) \<and> fst e \<in> {''previous'', ''next''}"
    and "distinct (map fst es)"
  shows "next_page_url (Some (shopify_header base es))
         = map_option (\<lambda>c. ''products.json?limit=250&page_info='' @ c) (map_of es ''next'')"
  using assms by (rule regex_shopify)

theorem link_header_roundtrip_witness:
  "next_page_url (Some (shopify_header ''https://demo.myshopify.com/admin/api/2023-10/'' [(''previous'', ''PRV''), (''next'', ''NXT'')]))
     = Some ''products.json?limit=250&page_info=NXT''"
proof -
  have b: "base_ok ''https://demo.myshopify.com/admin/api/2023-10/''" by (simp add: base_ok_def js_dot_def)
  have c: "\<forall>e \<in> set [(''previous'', ''PRV''), (''next'', ''NXT'')]. cursor_ok (snd e) \<and> fst e \<in> {''previous'', ''next''}"
    by (simp add: cursor_ok_def cursor_char_def)
  show ?thesis using link_header_roundtrip [OF b c] by simp
qed


text \<open>
  C15 (finding: the cursor can come from another relation; spec 6 and 9). Whenever the
  \<open>next\<close> link of a header carries no \<open>page_info\<close> parameter and the \<open>previous\<close>
  link before it does, the code continues with the cursor of the \<open>previous\<close> link,
  that is, it goes back a page, where the structured reading of spec section 9, which
  consults only the entry with \<open>rel="next"\<close>, stops. This holds for every shop base
  URL, every URL-safe cursor and every next URL without \<open>page_info=\<close>, \<open>>\<close> or
  line break.
\<close>

theorem cursor_from_previous_link:
  assumes "base_ok base" and "cursor_ok p"
    and "\<forall>x \<in> set n. js_dot x \<and> x \<noteq> CHR ''>''" and "\<not> sublist ''page_info='' n"
  shows "next_page_url (Some (link_entry (''previous'', shopify_url base p) @ '', '' @ link_entry (''next'', n)))
         = Some (''products.json?limit=250&page_info='' @ p)
     \<and> structured_next_url (Some (link_entry (''previous'', shopify_url base p) @ '', '' @ link_entry (''next'', n))) = None"
proof -
  let ?q = "''products.json?limit=250&''"
  let ?w = \<open>''>; rel="previous", <'' @ n\<close>
  have h: "link_entry (''previous'', shopify_url base p) @ '', '' @ link_entry (''next'', n)
           = ''<'' @ (base @ ?q) @ ''page_info='' @ p @ ?w @ rel_next_lit @ []"
    by (simp add: link_entry_def shopify_url_def rel_next_lit_def)
  have u: "\<forall>x \<in> set (base @ ?q). js_dot x" using base_js_dot [OF assms(1)] by (auto simp: js_dot_def)
  have w: "\<forall>x \<in> set ?w. js_dot x" using assms(3) by (auto simp: js_dot_def)
  have c: "CHR ''>'' \<notin> set p" using cursor_js_dot [OF assms(2)] by blast
  have hw: "?w = [] \<or> hd ?w = CHR ''>''" by simp
  have "link_match (''<'' @ (base @ ?q) @ ''page_info='' @ p @ ?w @ rel_next_lit @ []) = Some p"
    using u c w hw previous_then_next_no_page_info [OF assms(2,4)] by (rule link_match_last_gap)
  moreover have "p \<noteq> []" using assms(2) by (simp add: cursor_ok_def)
  ultimately have "next_page_url (Some (link_entry (''previous'', shopify_url base p) @ '', '' @ link_entry (''next'', n)))
         = Some (''products.json?limit=250&page_info='' @ p)"
    unfolding h by (intro next_url_of_match) simp_all
  then show ?thesis using structured_previous_next [OF assms] by simp
qed

theorem cursor_from_previous_link_witness:
  "next_page_url (Some (link_entry (''previous'', shopify_url ''https://demo.myshopify.com/admin/api/2023-10/'' ''PRV'')
                       @ '', '' @ link_entry (''next'', ''https://demo.myshopify.com/admin/api/2023-10/products.json?limit=250'')))
   = Some ''products.json?limit=250&page_info=PRV''
   \<and> structured_next_url (Some (link_entry (''previous'', shopify_url ''https://demo.myshopify.com/admin/api/2023-10/'' ''PRV'')
                       @ '', '' @ link_entry (''next'', ''https://demo.myshopify.com/admin/api/2023-10/products.json?limit=250''))) = None"
proof -
  have b: "base_ok ''https://demo.myshopify.com/admin/api/2023-10/''" by (simp add: base_ok_def js_dot_def)
  have c: "cursor_ok ''PRV''" by (simp add: cursor_ok_def cursor_char_def)
  have n: "\<forall>x \<in> set ''https://demo.myshopify.com/admin/api/2023-10/products.json?limit=250''. js_dot x \<and> x \<noteq> CHR ''>''"
    by (simp add: js_dot_def)
  have np: "\<not> sublist ''page_info='' ''https://demo.myshopify.com/admin/api/2023-10/products.json?limit=250''"
    by (simp add: str_includes_sublist [symmetric])
  show ?thesis using cursor_from_previous_link [OF b c n np] by simp
qed

end
