(* ===== verification/Store.thy ===== *)
theory Store
  imports Orchestrator Link_Grammar
begin

text \<open>
  The remote store behind the transport (spec section 6), as a server the whole program
  can run against: the catalog is a list of products; a listing request
  \<^verbatim>\<open>products.json?limit=250[&page_info=c]\<close> returns the page at the offset the
  cursor names, with a Shopify-style \<^verbatim>\<open>link\<close> header (a \<open>previous\<close> entry, then a
  \<open>next\<close> entry while products remain); a variant update sets the variant's position,
  and is refused with 404 for an unknown id. The store's state is the catalog after the
  writes of the history (\<open>store_after\<close>). A second server rate-limits the
  listing. The lemmas here are about the store and its headers: writes change positions
  only, a swap's two writes swap one product's positions and leave the others, and the
  pattern of the pager finds the store's \<open>next\<close> cursor, or none on the last page;
  the runs are in \<open>Store_Runs\<close>.
\<close>

section \<open>The store\<close>

type_synonym catalog = "product list"

definition set_position :: "nat \<Rightarrow> int \<Rightarrow> variant \<Rightarrow> variant" where
  "set_position v p x = (if vid x = v then x\<lparr>position := p\<rparr> else x)"

text \<open>\<^verbatim>\<open>PUT variants/{v}.json\<close> with position \<open>p\<close>: the variant with id \<open>v\<close> gets it.\<close>

definition store_put :: "catalog \<Rightarrow> nat \<Rightarrow> int \<Rightarrow> catalog" where
  "store_put S v p = map (\<lambda>pr. pr\<lparr>variants := map (set_position v p) (variants pr)\<rparr>) S"

fun store_event :: "catalog \<Rightarrow> event \<Rightarrow> catalog" where
  "store_event S (EvPut v p) = store_put S v p"
| "store_event S _ = S"

definition store_after :: "catalog \<Rightarrow> event list \<Rightarrow> catalog" where
  "store_after S0 h = foldl store_event S0 h"

definition catalog_vids :: "catalog \<Rightarrow> nat list" where
  "catalog_vids S = concat (map (\<lambda>pr. map vid (variants pr)) S)"

text \<open>
  The listing path read back: the first page, or the page at the offset named by the
  cursor (the store issues decimal offsets as cursors).
\<close>

definition parse_listing :: "string \<Rightarrow> nat option" where
  "parse_listing u =
     (if u = ''products.json?limit=250'' then Some 0
      else case match_lit ''products.json?limit=250&page_info='' u of
             None \<Rightarrow> None
           | Some c \<Rightarrow> nat_of_string c)"

text \<open>
  The store's \<^verbatim>\<open>link\<close> header, in Shopify's format (\<open>shopify_header\<close>): a
  \<open>previous\<close> entry after the first page, then a \<open>next\<close> entry while products
  remain, with decimal offsets as cursors; no header on a single page.
\<close>

definition store_links :: "nat \<Rightarrow> nat \<Rightarrow> nat \<Rightarrow> (string \<times> string) list" where
  "store_links psz off n =
     (if 0 < off then [(''previous'', string_of_nat (off - psz))] else [])
     @ (if off + psz < n then [(''next'', string_of_nat (off + psz))] else [])"

definition store_link :: "string \<Rightarrow> nat \<Rightarrow> nat \<Rightarrow> nat \<Rightarrow> string option" where
  "store_link base psz off n =
     (if store_links psz off n = [] then None else Some (shopify_header base (store_links psz off n)))"

text \<open>
  The server: pages of \<open>psz\<close> products (250 for a store honouring the code's
  \<^verbatim>\<open>limit\<close>), links on the base URL \<open>base\<close>, state computed from the history.
\<close>

definition store_server :: "string \<Rightarrow> nat \<Rightarrow> catalog \<Rightarrow> transport" where
  "store_server base psz S0 =
     \<lparr>get_reply = (\<lambda>h u.
        case parse_listing u of
          None \<Rightarrow> Fail 400 ''Invalid page_info''
        | Some off \<Rightarrow>
            (let S = store_after S0 h in
             Ok \<lparr>products = Some (take psz (drop off S)), link = store_link base psz off (length S)\<rparr>)),
      put_reply = (\<lambda>h v p.
        if v \<in> set (catalog_vids (store_after S0 h)) then Ok () else Fail 404 ''Not Found'')\<rparr>"

text \<open>The abstract policy applied to one product.\<close>

definition reorder_product :: "product \<Rightarrow> product" where
  "reorder_product p = p\<lparr>variants := reorder_spec (variants p)\<rparr>"

text \<open>
  The number of listing requests a catalog of \<open>m\<close> products needs with pages of
  \<open>psz\<close>: one per page, and one for an empty catalog.
\<close>

fun pages_needed :: "nat \<Rightarrow> nat \<Rightarrow> nat" where
  "pages_needed psz m = (if m \<le> psz \<or> psz = 0 then 1 else Suc (pages_needed psz (m - psz)))"

declare pages_needed.simps [simp del]

text \<open>
  A store that rate-limits its listing: the request for the page at offset \<open>off\<close> is
  answered with 429 while fewer than \<open>q off\<close> requests for the same path have been
  made; after that the store answers as \<open>store_server\<close>.
\<close>

definition get_count :: "string \<Rightarrow> event list \<Rightarrow> nat" where
  "get_count u h = length (filter (\<lambda>e. e = EvGet u) h)"

definition throttled_store :: "(nat \<Rightarrow> nat) \<Rightarrow> string \<Rightarrow> nat \<Rightarrow> catalog \<Rightarrow> transport" where
  "throttled_store q base psz S0 =
     (store_server base psz S0)\<lparr>get_reply := (\<lambda>h u.
        case parse_listing u of
          Some off \<Rightarrow>
            if get_count u h < q off then Fail 429 ''Too Many Requests''
            else get_reply (store_server base psz S0) h u
        | None \<Rightarrow> get_reply (store_server base psz S0) h u)\<rparr>"

text \<open>
  Authentication (spec section 6: an access-token header on every call): a store that
  requires the token \<open>tok\<close> answers every request of a client whose
  \<^verbatim>\<open>X-Shopify-Access-Token\<close> header is not \<open>tok\<close> with 401 and Shopify's error
  body, and otherwise as the server \<open>T\<close> behind it. The client sends the same headers on
  every request (\<open>apiClient_headers\<close>), so the store is a function of the client's
  configuration.
\<close>

definition auth_error :: string where
  \<open>auth_error = ''{"errors":"[API] Invalid API key or access token (unrecognized login or wrong password)"}''\<close>

definition auth_store :: "string \<Rightarrow> config \<Rightarrow> transport \<Rightarrow> transport" where
  "auth_store tok cfg T =
     (if map_of (apiClient_headers cfg) ''X-Shopify-Access-Token'' = Some (Some tok) then T
      else \<lparr>get_reply = (\<lambda>_ _. Fail 401 auth_error), put_reply = (\<lambda>_ _ _. Fail 401 auth_error)\<rparr>)"

text \<open>The GETs of a run against it from offset \<open>off\<close>: per page, its 429s and the success.\<close>

function listing_gets :: "(nat \<Rightarrow> nat) \<Rightarrow> nat \<Rightarrow> nat \<Rightarrow> nat \<Rightarrow> nat" where
  "listing_gets q psz n off =
     Suc (q off) + (if off + psz < n \<and> 0 < psz then listing_gets q psz n (off + psz) else 0)"
  by pat_completeness auto

termination by (relation "measure (\<lambda>(q, psz, n, off). n - off)") auto

declare listing_gets.simps [simp del]

text \<open>
  A two-product catalog served one product per page: the spec's widget, then a product
  whose bolt variant already comes first.
\<close>

definition demo_base :: string where
  "demo_base = ''https://demo.myshopify.com/admin/api/2023-10/''"

definition demo_catalog :: catalog where
  "demo_catalog =
     [spec_widget,
      \<lparr>pid = 2, ptitle = ''Gadget'',
       variants = [\<lparr>vid = 20, vtitle = ''BOLT kit'', position = 1\<rparr>,
                   \<lparr>vid = 21, vtitle = ''Free Sample'', position = 2\<rparr>]\<rparr>]"

section \<open>Lemmas\<close>

lemma store_after_append [simp]: "store_after S (xs @ ys) = store_after (store_after S xs) ys"
  by (simp add: store_after_def)

lemma store_after_Nil [simp]: "store_after S [] = S"
  and store_after_Cons [simp]: "store_after S (e # es) = store_after (store_event S e) es"
  by (simp_all add: store_after_def)

lemma catalog_vids_append [simp]: "catalog_vids (A @ B) = catalog_vids A @ catalog_vids B"
  and catalog_vids_Cons [simp]: "catalog_vids (p # B) = map vid (variants p) @ catalog_vids B"
  and catalog_vids_Nil [simp]: "catalog_vids [] = []"
  by (simp_all add: catalog_vids_def)

lemma store_put_vids [simp]: "catalog_vids (store_put S v p) = catalog_vids S"
  by (induction S) (simp_all add: store_put_def set_position_def comp_def)

lemma store_event_vids [simp]: "catalog_vids (store_event S e) = catalog_vids S"
  by (cases e) simp_all

lemma store_after_vids [simp]: "catalog_vids (store_after S h) = catalog_vids S"
  by (induction h arbitrary: S) simp_all

lemma store_put_length [simp]: "length (store_put S v p) = length S"
  by (simp add: store_put_def)

lemma store_after_length [simp]: "length (store_after S h) = length S"
proof (induction h arbitrary: S)
  case (Cons e h)
  then show ?case by (cases e) simp_all
qed simp

lemma store_put_Cons:
  "store_put (pr # B) v p = pr\<lparr>variants := map (set_position v p) (variants pr)\<rparr> # store_put B v p"
  by (simp add: store_put_def)

lemma set_position_absent: "v \<notin> vid ` set vs \<Longrightarrow> map (set_position v p) vs = vs"
  by (induction vs) (auto simp: set_position_def)

lemma store_put_absent:
  "v \<notin> set (catalog_vids S) \<Longrightarrow> store_put S v p = S"
  by (induction S) (simp_all add: store_put_Cons set_position_absent, simp add: store_put_def)

lemma store_put_append:
  "store_put (A @ B) v p = store_put A v p @ store_put B v p"
  by (simp add: store_put_def)

lemma reorder_product_vids [simp]: "map vid (variants (reorder_product p)) = map vid (variants p)"
  by (simp add: reorder_product_def reorder_spec_def swap_positions_vids split: option.splits)

lemma catalog_vids_reorder [simp]: "catalog_vids (map reorder_product S) = catalog_vids S"
  by (induction S) simp_all

lemma store_put_ok:
  "put_reply (store_server base psz S0) h v p =
     (if v \<in> set (catalog_vids S0) then Ok () else Fail 404 ''Not Found'')"
  by (simp add: store_server_def)

lemma set_position_swap:
  "vid s \<noteq> vid b \<Longrightarrow>
   map (set_position (vid s) (position b) \<circ> set_position (vid b) (position s)) vs = swap_positions s b vs"
  by (induction vs) (auto simp: set_position_def swap_positions_def)

text \<open>The two writes of a swap, applied to the catalog, swap the product's two positions.\<close>

lemma store_swap:
  assumes "vid s \<noteq> vid b"
    and "vid b \<notin> set (catalog_vids A @ catalog_vids B)" and "vid s \<notin> set (catalog_vids A @ catalog_vids B)"
  shows "store_put (store_put (A @ p # B) (vid b) (position s)) (vid s) (position b)
         = A @ p\<lparr>variants := swap_positions s b (variants p)\<rparr> # B"
  using assms by (simp add: store_put_append store_put_Cons store_put_absent set_position_swap)

text \<open>
  One product against a store that accepts writes to its variants: the policy returns
  normally, issues no GET, and leaves the catalog with the abstract policy applied to
  that product.
\<close>

lemma check_store:
  assumes dist: "distinct (catalog_vids (A @ p # B))"
    and ok: "\<forall>h v q. v \<in> set (catalog_vids (A @ p # B)) \<longrightarrow> put_reply T h v q = Ok ()"
  shows "\<exists>seg. checkAndReorderVariants T p tr = (Inr (), tr @ seg)
           \<and> store_after (A @ p # B) seg = A @ reorder_product p # B \<and> gets seg = 0 \<and> pages seg = 0"
proof (cases "\<exists>s b. find_variant ''sample'' (variants p) = Some s
                  \<and> find_variant ''bolt'' (variants p) = Some b \<and> position s < position b")
  case True
  then obtain s b where fs: "find_variant ''sample'' (variants p) = Some s"
    and fb: "find_variant ''bolt'' (variants p) = Some b" and lt: "position s < position b" by blast
  have sb: "s \<in> set (variants p)" "b \<in> set (variants p)"
    using find_variant_SomeD [OF fs] find_variant_SomeD [OF fb] by simp_all
  have wf: "wf_variants (variants p)" using dist by (simp add: wf_variants_def)
  have ne: "vid s \<noteq> vid b" using wf_vid_inj [OF wf sb] lt by auto
  have out: "vid b \<notin> set (catalog_vids A @ catalog_vids B)" "vid s \<notin> set (catalog_vids A @ catalog_vids B)"
    using dist sb by auto
  have in_cat: "vid b \<in> set (catalog_vids (A @ p # B))" "vid s \<in> set (catalog_vids (A @ p # B))"
    using sb by auto
  let ?seg = "[EvReorder (pid p) (ptitle p) (position s) (position b),
               EvPut (vid b) (position s), EvSleep 1000,
               EvPut (vid s) (position b), EvSleep 1000, EvReorderDone]"
  have run: "checkAndReorderVariants T p tr = (Inr (), tr @ ?seg)"
    using ok in_cat by (intro check_swap [OF fs fb lt]) auto
  have "reorder_spec (variants p) = swap_positions s b (variants p)"
    using fs fb lt by (simp add: reorder_spec_def)
  then have "store_after (A @ p # B) ?seg = A @ reorder_product p # B"
    using store_swap [OF ne out] by (simp add: reorder_product_def)
  then show ?thesis using run by (intro exI [of _ ?seg]) (simp add: pages_def)
next
  case False
  then have "checkAndReorderVariants T p tr = (Inr (), tr)"
    by (auto simp: check_unfold split: option.splits)
  moreover have "reorder_product p = p"
    using False by (auto simp: reorder_product_def reorder_spec_def split: option.splits)
  ultimately show ?thesis by (intro exI [of _ "[]"]) (simp add: pages_def)
qed

text \<open>A page of products, one after the other, each in the catalog between \<open>D\<close> and \<open>R\<close>.\<close>

lemma process_store:
  assumes "distinct (catalog_vids (D @ ps @ R))"
    and "\<forall>h v q. v \<in> set (catalog_vids (D @ ps @ R)) \<longrightarrow> put_reply T h v q = Ok ()"
  shows "\<exists>seg. processProducts T ps tr = (Inr (), tr @ seg)
           \<and> store_after (D @ ps @ R) seg = D @ map reorder_product ps @ R \<and> gets seg = 0 \<and> pages seg = 0"
  using assms
proof (induction ps arbitrary: D tr)
  case Nil
  then show ?case by (simp add: pages_def)
next
  case (Cons p ps)
  obtain seg1 where c: "checkAndReorderVariants T p tr = (Inr (), tr @ seg1)"
    and st1: "store_after (D @ p # ps @ R) seg1 = D @ reorder_product p # ps @ R"
    and g1: "gets seg1 = 0" "pages seg1 = 0"
    using check_store [of D p "ps @ R" T tr] Cons.prems by auto
  have v: "catalog_vids ((D @ [reorder_product p]) @ ps @ R) = catalog_vids (D @ (p # ps) @ R)"
    by simp
  obtain seg2 where pp: "processProducts T ps (tr @ seg1) = (Inr (), (tr @ seg1) @ seg2)"
    and st2: "store_after ((D @ [reorder_product p]) @ ps @ R) seg2
              = (D @ [reorder_product p]) @ map reorder_product ps @ R"
    and g2: "gets seg2 = 0" "pages seg2 = 0"
    using Cons.IH [of "D @ [reorder_product p]" "tr @ seg1"] Cons.prems unfolding v by blast
  show ?case using c pp st1 st2 g1 g2
    by (intro exI [of _ "seg1 @ seg2"]) (simp add: pages_def)
qed

subsection \<open>The link header of the store\<close>

lemma digits_cursor_ok: "cursor_ok (string_of_nat k)"
  using string_of_nat_digits [of _ k] by (auto simp: cursor_ok_def cursor_char_def is_digit_def)

lemma store_links_ok:
  "\<forall>e \<in> set (store_links psz off n). cursor_ok (snd e) \<and> fst e \<in> {''previous'', ''next''}"
  "distinct (map fst (store_links psz off n))"
  by (auto simp: store_links_def digits_cursor_ok)

lemma store_link_next_page:
  assumes "base_ok base"
  shows "next_page_url (store_link base psz off n) =
           (if off + psz < n then Some (''products.json?limit=250&page_info='' @ string_of_nat (off + psz)) else None)"
proof (cases "store_links psz off n = []")
  case True
  then show ?thesis by (simp add: store_link_def next_page_url_def store_links_def split: if_splits)
next
  case False
  then have "next_page_url (store_link base psz off n)
             = map_option (\<lambda>c. ''products.json?limit=250&page_info='' @ c) (map_of (store_links psz off n) ''next'')"
    using regex_shopify [OF assms store_links_ok] by (simp add: store_link_def)
  then show ?thesis by (simp add: store_links_def)
qed

text \<open>While products remain, the pattern finds the cursor of the \<open>next\<close> entry.\<close>

lemma store_link_next:
  "base_ok base \<Longrightarrow> off + psz < n \<Longrightarrow>
   next_page_url (store_link base psz off n) = Some (''products.json?limit=250&page_info='' @ string_of_nat (off + psz))"
  by (simp add: store_link_next_page)

text \<open>On the last page the header has no \<open>next\<close> entry, and the pager stops.\<close>

lemma store_link_last: "base_ok base \<Longrightarrow> \<not> off + psz < n \<Longrightarrow> next_page_url (store_link base psz off n) = None"
  by (simp add: store_link_next_page)

text \<open>The store reads back the cursor it issued (a round trip through the header).\<close>

lemma parse_listing_cursor:
  "parse_listing (''products.json?limit=250&page_info='' @ string_of_nat k) = Some k"
proof -
  have "length ''products.json?limit=250'' < length (''products.json?limit=250&page_info='' @ string_of_nat k)"
    by simp
  then have "''products.json?limit=250&page_info='' @ string_of_nat k \<noteq> ''products.json?limit=250''"
    by (metis less_irrefl)
  then show ?thesis by (simp only: parse_listing_def if_False match_lit_append option.case nat_of_string_of_nat)
qed

end
