(* ===== verification/Store_Runs.thy ===== *)
theory Store_Runs
  imports Store
begin

text \<open>
  Whole runs of the program against the store of \<open>Store\<close>: the page loop followed
  page by page (\<open>throttled_loop\<close>, by induction on the products left), through the
  retrier, the regular expression on the store's link headers and the policy on every
  product. The properties: a run ends normally and refines the abstract policy on the whole
  catalog, fetches each page once, keeps the invariant I1 on every product, and ends even
  when every page is rate-limited up to five times.
\<close>

section \<open>A run against the store\<close>

lemma pages_needed_next: "0 < psz \<Longrightarrow> psz < m \<Longrightarrow> pages_needed psz m = Suc (pages_needed psz (m - psz))"
  by (simp add: pages_needed.simps)

lemma pages_needed_last: "m \<le> psz \<Longrightarrow> pages_needed psz m = 1"
  by (simp add: pages_needed.simps)

lemma store_get:
  assumes "parse_listing url = Some off" and "drop off (store_after S0 tr) = drop off S0"
  shows "get_reply (store_server base psz S0) tr url =
           Ok \<lparr>products = Some (take psz (drop off S0)), link = store_link base psz off (length S0)\<rparr>"
  using assms by (simp add: store_server_def Let_def)

lemma drop_done: "drop off (map f (take off xs) @ drop off xs) = drop off xs"
  by (cases "off \<le> length xs") simp_all

lemma get_count_backoff [simp]: "get_count u (backoff_trace u d i) = i"
  by (induction i arbitrary: d) (simp_all add: backoff_trace_Suc get_count_def)

lemma get_count_append [simp]: "get_count u (xs @ ys) = get_count u xs + get_count u ys"
  by (simp add: get_count_def)

lemma store_after_backoff [simp]: "store_after S (backoff_trace u d k) = S"
  by (induction k arbitrary: d) (simp_all add: backoff_trace_Suc)

lemma throttled_get:
  assumes "parse_listing url = Some off" and "drop off (store_after S0 tr) = drop off S0"
  shows "get_reply (throttled_store q base psz S0) tr url =
           (if get_count url tr < q off then Fail 429 ''Too Many Requests''
            else Ok \<lparr>products = Some (take psz (drop off S0)), link = store_link base psz off (length S0)\<rparr>)"
  using assms store_get [OF assms] by (simp add: throttled_store_def)

text \<open>
  The retrier against the rate-limited store, on a path not requested before: \<open>q off\<close>
  rounds of 429, then the page.
\<close>

lemma throttled_retry:
  assumes url: "parse_listing url = Some off" and st: "drop off (store_after S0 tr) = drop off S0"
    and fresh: "get_count url tr = 0" and q: "q off \<le> 5"
  shows "retryRequest (throttled_store q base psz S0) url 5 1000 tr =
           (Inr \<lparr>products = Some (take psz (drop off S0)), link = store_link base psz off (length S0)\<rparr>,
            tr @ backoff_trace url 1000 (q off) @ [EvGet url])"
proof -
  let ?T = "throttled_store q base psz S0"
  let ?pg = "\<lparr>products = Some (take psz (drop off S0)), link = store_link base psz off (length S0)\<rparr>"
  have R: "get_reply ?T (tr @ backoff_trace url 1000 i) url =
             (if i < q off then Fail 429 ''Too Many Requests'' else Ok ?pg)" for i
    using throttled_get [OF url, of S0 "tr @ backoff_trace url 1000 i"] st fresh by simp
  obtain k where "k \<le> 5"
    and run: "retryRequest ?T url 5 1000 tr =
       (reply_result (get_reply ?T (tr @ backoff_trace url 1000 k) url), tr @ backoff_trace url 1000 k @ [EvGet url])"
    and before: "\<forall>i < k. is_429 (get_reply ?T (tr @ backoff_trace url 1000 i) url)"
    and last: "is_429 (get_reply ?T (tr @ backoff_trace url 1000 k) url) \<longrightarrow> k = 5"
    using retry_shape [of 5 ?T url 1000 tr] by blast
  have "\<not> k < q off"
  proof
    assume "k < q off"
    then have "k = 5" using last R by (simp add: is_429_def)
    then show False using \<open>k < q off\<close> q by simp
  qed
  moreover have "\<not> q off < k"
  proof
    assume "q off < k"
    then show False using before R [of "q off"] by (auto simp: is_429_def)
  qed
  ultimately have "k = q off" by simp
  then show ?thesis using run R by (simp add: reply_result_def)
qed

text \<open>
  The retrier against the rate-limited store when the page at \<open>off\<close> is refused more
  often than the budget allows: six GETs, five warnings and sleeps, then the 429 is thrown.
\<close>

lemma throttled_retry_blocked:
  assumes url: "parse_listing url = Some off" and st: "drop off (store_after S0 tr) = drop off S0"
    and fresh: "get_count url tr = 0" and q: "5 < q off"
  shows "retryRequest (throttled_store q base psz S0) url 5 1000 tr =
           (Inl (HttpError 429 ''Too Many Requests''), tr @ backoff_trace url 1000 5 @ [EvGet url])"
proof -
  let ?T = "throttled_store q base psz S0"
  have R: "i \<le> 5 \<Longrightarrow> get_reply ?T (tr @ backoff_trace url 1000 i) url = Fail 429 ''Too Many Requests''" for i
    using throttled_get [OF url, of S0 "tr @ backoff_trace url 1000 i"] st fresh q by simp
  obtain k where "k \<le> 5"
    and run: "retryRequest ?T url 5 1000 tr =
       (reply_result (get_reply ?T (tr @ backoff_trace url 1000 k) url), tr @ backoff_trace url 1000 k @ [EvGet url])"
    and last: "is_429 (get_reply ?T (tr @ backoff_trace url 1000 k) url) \<longrightarrow> k = 5"
    using retry_shape [of 5 ?T url 1000 tr] by blast
  then have "k = 5" using R by (simp add: is_429_def)
  then show ?thesis using run R by (simp add: reply_result_def)
qed

text \<open>
  One page of the loop against the rate-limited store, at offset \<open>off\<close> inside the
  catalog, served after \<open>q off \<le> 5\<close> refusals: the products before \<open>off + psz\<close> are
  then reordered in the store, every GET so far was for a page before \<open>off + psz\<close>, and
  the loop goes on with the next cursor or ends after the last page.
\<close>

lemma throttled_step:
  assumes psz: "0 < psz" and dist: "distinct (catalog_vids S0)" and safe: "base_ok base"
    and url: "parse_listing url = Some off"
    and st: "store_after S0 tr = map reorder_product (take off S0) @ drop off S0"
    and old: "\<forall>u. EvGet u \<in> set tr \<longrightarrow> (case parse_listing u of Some j \<Rightarrow> j < off | None \<Rightarrow> False)"
    and inside: "off < length S0" and q: "q off \<le> 5"
  shows "\<exists>tr1. store_after S0 tr1 = map reorder_product (take (off + psz) S0) @ drop (off + psz) S0
           \<and> gets tr1 = gets tr + Suc (q off)
           \<and> (\<forall>u. EvGet u \<in> set tr1 \<longrightarrow> (case parse_listing u of Some j \<Rightarrow> j < off + psz | None \<Rightarrow> False))
           \<and> (if off + psz < length S0
              then pageLoop (throttled_store q base psz S0) url n tr
                   = pageLoop (throttled_store q base psz S0)
                       (''products.json?limit=250&page_info='' @ string_of_nat (off + psz)) (Suc n) tr1
              else pageLoop (throttled_store q base psz S0) url n tr = Some (Inr (), tr1))"
proof -
  let ?T = "throttled_store q base psz S0"
  let ?pg = "\<lparr>products = Some (take psz (drop off S0)), link = store_link base psz off (length S0)\<rparr>"
  let ?tr0 = "tr @ backoff_trace url 1000 (q off) @ [EvGet url]"
  have "drop off (store_after S0 tr) = drop off S0" unfolding st by (rule drop_done)
  moreover have "get_count url tr = 0"
    using url old by (fastforce simp: get_count_def filter_empty_conv)
  ultimately have rr: "retryRequest ?T url 5 1000 tr = (Inr ?pg, ?tr0)"
    using throttled_retry [OF url] q by blast
  have old0: "\<forall>u. EvGet u \<in> set ?tr0 \<longrightarrow> (case parse_listing u of Some j \<Rightarrow> j \<le> off | None \<Rightarrow> False)"
    using url old by (fastforce dest: backoff_gets split: option.splits)
  let ?ps = "take psz (drop off S0)"
  let ?D = "map reorder_product (take off S0)" and ?R = "drop (off + psz) S0"
  let ?tr1 = "?tr0 @ [EvPage (Suc n) (length ?ps)]"
  have ne: "?ps \<noteq> []" using inside psz by simp
  have "drop off S0 = ?ps @ drop psz (drop off S0)" by (rule append_take_drop_id [symmetric])
  also have "drop psz (drop off S0) = ?R" by (simp add: add.commute)
  finally have split: "drop off S0 = ?ps @ ?R" .
  have st1: "store_after S0 ?tr1 = ?D @ ?ps @ ?R"
    using st by (simp add: split [symmetric])
  have vids: "catalog_vids (?D @ ?ps @ ?R) = catalog_vids S0"
    by (simp only: split [symmetric] catalog_vids_append catalog_vids_reorder)
      (simp only: catalog_vids_append [symmetric] append_take_drop_id)
  have d: "distinct (catalog_vids (?D @ ?ps @ ?R))" unfolding vids by (rule dist)
  have ok: "\<forall>h v p. v \<in> set (catalog_vids (?D @ ?ps @ ?R)) \<longrightarrow> put_reply ?T h v p = Ok ()"
    unfolding vids by (simp add: throttled_store_def store_put_ok)
  obtain seg where pp: "processProducts ?T ?ps ?tr1 = (Inr (), ?tr1 @ seg)"
    and st2: "store_after (?D @ ?ps @ ?R) seg = ?D @ map reorder_product ?ps @ ?R"
    and g: "gets seg = 0"
    using process_store [OF d ok, of ?tr1] by blast
  have "take (off + psz) S0 = take off S0 @ ?ps" by (simp add: take_add)
  then have "store_after S0 (?tr1 @ seg) = map reorder_product (take (off + psz) S0) @ ?R"
    using st1 st2 by simp
  moreover have "gets (?tr1 @ seg) = gets tr + Suc (q off)" using g by simp
  moreover have "\<forall>u. EvGet u \<in> set (?tr1 @ seg) \<longrightarrow>
                   (case parse_listing u of Some j \<Rightarrow> j < off + psz | None \<Rightarrow> False)"
    using old0 no_get_seg [OF g] psz by (fastforce split: option.splits)
  moreover have "if off + psz < length S0
      then pageLoop ?T url n tr = pageLoop ?T (''products.json?limit=250&page_info='' @ string_of_nat (off + psz)) (Suc n) (?tr1 @ seg)
      else pageLoop ?T url n tr = Some (Inr (), ?tr1 @ seg)"
    using loop_next_page [OF rr _ ne pp] store_link_next [OF safe]
      loop_last_page [OF rr _ ne pp] store_link_last [OF safe] by simp
  ultimately show ?thesis by blast
qed

text \<open>
  The page loop against the rate-limited store, from the page at offset \<open>off\<close>: the
  products before \<open>off\<close> are already reordered in the store, and every earlier GET was
  for an earlier page. By induction on the products left.
\<close>

lemma throttled_loop:
  assumes psz: "0 < psz" and dist: "distinct (catalog_vids S0)" and safe: "base_ok base"
    and q: "\<forall>j. q j \<le> 5"
  shows "parse_listing url = Some off \<Longrightarrow>
         store_after S0 tr = map reorder_product (take off S0) @ drop off S0 \<Longrightarrow>
         (\<forall>u. EvGet u \<in> set tr \<longrightarrow> (case parse_listing u of Some j \<Rightarrow> j < off | None \<Rightarrow> False)) \<Longrightarrow>
         \<exists>tr'. pageLoop (throttled_store q base psz S0) url n tr = Some (Inr (), tr')
           \<and> store_after S0 tr' = map reorder_product S0
           \<and> gets tr' = gets tr + listing_gets q psz (length S0) off"
proof (induction "length S0 - off" arbitrary: off url n tr rule: less_induct)
  case less
  let ?T = "throttled_store q base psz S0"
  show ?case
  proof (cases "off < length S0")
    case False
    let ?tr0 = "tr @ backoff_trace url 1000 (q off) @ [EvGet url]"
    have "drop off (store_after S0 tr) = drop off S0" unfolding less.prems(2) by (rule drop_done)
    moreover have "get_count url tr = 0"
      using less.prems(1,3) by (fastforce simp: get_count_def filter_empty_conv)
    ultimately have rr: "retryRequest ?T url 5 1000 tr =
        (Inr \<lparr>products = Some (take psz (drop off S0)), link = store_link base psz off (length S0)\<rparr>, ?tr0)"
      using throttled_retry [OF less.prems(1)] q by blast
    then have "pageLoop ?T url n tr = Some (Inr (), ?tr0)"
      using loop_no_products [OF rr] False by simp
    moreover have "store_after S0 ?tr0 = map reorder_product S0"
      using less.prems(2) False by simp
    moreover have "listing_gets q psz (length S0) off = Suc (q off)"
      using False by (simp add: listing_gets.simps)
    ultimately show ?thesis by simp
  next
    case True
    obtain tr1 where st: "store_after S0 tr1 = map reorder_product (take (off + psz) S0) @ drop (off + psz) S0"
      and g: "gets tr1 = gets tr + Suc (q off)"
      and old: "\<forall>u. EvGet u \<in> set tr1 \<longrightarrow> (case parse_listing u of Some j \<Rightarrow> j < off + psz | None \<Rightarrow> False)"
      and next_or_last: "if off + psz < length S0
              then pageLoop ?T url n tr = pageLoop ?T (''products.json?limit=250&page_info='' @ string_of_nat (off + psz)) (Suc n) tr1
              else pageLoop ?T url n tr = Some (Inr (), tr1)"
      using throttled_step [where q = q and n = n, OF psz dist safe less.prems True] q by blast
    show ?thesis
    proof (cases "off + psz < length S0")
      case more: True
      have dec: "length S0 - (off + psz) < length S0 - off" using more psz by simp
      obtain tr' where l: "pageLoop ?T (''products.json?limit=250&page_info='' @ string_of_nat (off + psz)) (Suc n) tr1 = Some (Inr (), tr')"
        and s': "store_after S0 tr' = map reorder_product S0"
        and g': "gets tr' = gets tr1 + listing_gets q psz (length S0) (off + psz)"
        using less.hyps [OF dec parse_listing_cursor st old] by blast
      have "listing_gets q psz (length S0) off = Suc (q off) + listing_gets q psz (length S0) (off + psz)"
        using more psz by (simp add: listing_gets.simps)
      then show ?thesis using next_or_last more l s' g' g by simp
    next
      case last: False
      have "listing_gets q psz (length S0) off = Suc (q off)"
        using last by (simp add: listing_gets.simps)
      then show ?thesis using next_or_last last st g by simp
    qed
  qed
qed

text \<open>
  The page loop against a store that refuses the page \<open>m\<close> pages on from \<open>off\<close> six
  times or more, and serves the pages before it within the budget: the loop fails with
  the 429, and only the products before that page have been reordered.
\<close>

lemma throttled_loop_blocked:
  assumes psz: "0 < psz" and dist: "distinct (catalog_vids S0)" and safe: "base_ok base"
  shows "parse_listing url = Some off \<Longrightarrow>
         store_after S0 tr = map reorder_product (take off S0) @ drop off S0 \<Longrightarrow>
         (\<forall>u. EvGet u \<in> set tr \<longrightarrow> (case parse_listing u of Some j \<Rightarrow> j < off | None \<Rightarrow> False)) \<Longrightarrow>
         off + m * psz < length S0 \<Longrightarrow> 5 < q (off + m * psz) \<Longrightarrow> (\<forall>i < m. q (off + i * psz) \<le> 5) \<Longrightarrow>
         \<exists>tr'. pageLoop (throttled_store q base psz S0) url n tr = Some (Inl (HttpError 429 ''Too Many Requests''), tr')
           \<and> store_after S0 tr' = map reorder_product (take (off + m * psz) S0) @ drop (off + m * psz) S0"
proof (induction m arbitrary: off url n tr)
  case 0
  have "drop off (store_after S0 tr) = drop off S0" unfolding "0.prems"(2) by (rule drop_done)
  moreover have "get_count url tr = 0"
    using "0.prems"(1,3) by (fastforce simp: get_count_def filter_empty_conv)
  ultimately have "retryRequest (throttled_store q base psz S0) url 5 1000 tr =
      (Inl (HttpError 429 ''Too Many Requests''), tr @ backoff_trace url 1000 5 @ [EvGet url])"
    using throttled_retry_blocked [OF "0.prems"(1)] "0.prems"(5) by simp
  then show ?case using loop_fetch_fail "0.prems"(2) by fastforce
next
  case (Suc m)
  have inside: "off < length S0" and q0: "q off \<le> 5" using Suc.prems(4,6) by auto
  have more: "off + psz < length S0" using Suc.prems(4) by simp
  obtain tr1 where st: "store_after S0 tr1 = map reorder_product (take (off + psz) S0) @ drop (off + psz) S0"
    and old: "\<forall>u. EvGet u \<in> set tr1 \<longrightarrow> (case parse_listing u of Some j \<Rightarrow> j < off + psz | None \<Rightarrow> False)"
    and eq: "pageLoop (throttled_store q base psz S0) url n tr
               = pageLoop (throttled_store q base psz S0) (''products.json?limit=250&page_info='' @ string_of_nat (off + psz)) (Suc n) tr1"
    using throttled_step [where q = q and n = n, OF psz dist safe Suc.prems(1-3) inside q0] more by auto
  have "off + psz + m * psz < length S0" "5 < q (off + psz + m * psz)" "\<forall>i < m. q (off + psz + i * psz) \<le> 5"
    using Suc.prems(4-6) by (auto simp: add.assoc)
  then show ?case using Suc.IH [OF parse_listing_cursor st old] eq by (simp add: add.assoc)
qed

lemma throttled_run:
  assumes "0 < psz" and "distinct (catalog_vids S0)" and "base_ok base" and "\<forall>j. q j \<le> 5"
  shows "\<exists>tr. processAllProducts (throttled_store q base psz S0) [] = Some (Inr (), tr)
           \<and> store_after S0 tr = map reorder_product S0 \<and> gets tr = listing_gets q psz (length S0) 0"
proof -
  have "parse_listing ''products.json?limit=250'' = Some 0" by (simp add: parse_listing_def)
  moreover have "store_after S0 [] = map reorder_product (take 0 S0) @ drop 0 S0" by simp
  ultimately obtain tr where l: "pageLoop (throttled_store q base psz S0) ''products.json?limit=250'' 0 [] = Some (Inr (), tr)"
    and st: "store_after S0 tr = map reorder_product S0" and g: "gets tr = listing_gets q psz (length S0) 0"
    using throttled_loop [OF assms] by fastforce
  show ?thesis using l st g by (intro exI [of _ "tr @ [EvFinished]"]) (simp add: processAllProducts_def)
qed

lemma throttled_unlimited: "throttled_store (\<lambda>_. 0) base psz S0 = store_server base psz S0"
proof -
  have "(\<lambda>h u. case parse_listing u of
            Some off \<Rightarrow> if get_count u h < 0 then Fail 429 ''Too Many Requests''
                        else get_reply (store_server base psz S0) h u
          | None \<Rightarrow> get_reply (store_server base psz S0) h u) = get_reply (store_server base psz S0)"
    by (simp add: fun_eq_iff split: option.split)
  then show ?thesis by (simp add: throttled_store_def)
qed

lemma listing_gets_unlimited: "0 < psz \<Longrightarrow> listing_gets (\<lambda>_. 0) psz n off = pages_needed psz (n - off)"
proof (induction "\<lambda>_::nat. 0::nat" psz n off rule: listing_gets.induct)
  case (1 psz n off)
  show ?case
  proof (cases "off + psz < n")
    case True
    then show ?thesis using 1 pages_needed_next [OF 1(2), of "n - off"]
      by (simp add: listing_gets.simps [of _ psz n off] diff_diff_add)
  next
    case False
    then show ?thesis using 1(2) by (simp add: listing_gets.simps [of _ psz n off] pages_needed_last)
  qed
qed

lemma store_run:
  assumes "0 < psz" and "distinct (catalog_vids S0)" and "base_ok base"
  shows "\<exists>tr. processAllProducts (store_server base psz S0) [] = Some (Inr (), tr)
           \<and> store_after S0 tr = map reorder_product S0 \<and> gets tr = pages_needed psz (length S0)"
  using throttled_run [OF assms, of "\<lambda>_. 0"] listing_gets_unlimited [OF assms(1)]
  by (simp add: throttled_unlimited)

lemma reorder_spec_distinct:
  assumes "wf_variants vs" and "distinct (map position vs)"
  shows "distinct (map position (reorder_spec vs))"
proof (cases "\<exists>s b. find_variant ''sample'' vs = Some s \<and> find_variant ''bolt'' vs = Some b \<and> position s < position b")
  case True
  then obtain s b where fs: "find_variant ''sample'' vs = Some s" and fb: "find_variant ''bolt'' vs = Some b"
    and lt: "position s < position b" by blast
  then have "reorder_spec vs = swap_positions s b vs" by (simp add: reorder_spec_def)
  then show ?thesis
    using swap_positions_distinct [OF assms(1) _ _ lt assms(2)] find_variant_SomeD fs fb by simp
next
  case False
  then have "reorder_spec vs = vs" by (auto simp: reorder_spec_def split: option.splits)
  then show ?thesis using assms(2) by simp
qed

lemma catalog_wf_variants: "distinct (catalog_vids S) \<Longrightarrow> p \<in> set S \<Longrightarrow> wf_variants (variants p)"
  by (induction S) (auto simp: wf_variants_def)

lemma demo_hyps: "distinct (catalog_vids demo_catalog)" "base_ok demo_base"
  by (simp_all add: demo_catalog_def spec_widget_def demo_base_def base_ok_def js_dot_def)

lemma demo_reordered:
  "map reorder_product demo_catalog =
     [spec_widget\<lparr>variants := [\<lparr>vid = 10, vtitle = ''Sample'', position = 2\<rparr>,
                                \<lparr>vid = 11, vtitle = ''Bolt'', position = 1\<rparr>]\<rparr>,
      demo_catalog ! 1]"
  by code_simp

text \<open>
  A client with the store's token reaches the server behind it; any other client is
  refused at its first request, which the retrier does not retry (401 is not 429).
\<close>

lemma auth_accept: "SHOPIFY_ACCESS_TOKEN cfg = Some tok \<Longrightarrow> auth_store tok cfg T = T"
  by (simp add: auth_store_def apiClient_headers_def)

lemma auth_reject_run:
  assumes "SHOPIFY_ACCESS_TOKEN cfg \<noteq> Some tok"
  shows "main (auth_store tok cfg T) = Some [EvGet ''products.json?limit=250'', EvError (HttpError 401 auth_error)]"
proof -
  have "get_reply (auth_store tok cfg T) [] ''products.json?limit=250'' = Fail 401 auth_error"
    using assms by (simp add: auth_store_def apiClient_headers_def)
  then have "processAllProducts (auth_store tok cfg T) [] =
      Some (Inl (HttpError 401 auth_error), [EvGet ''products.json?limit=250''])"
    by (rule first_fetch_fails) simp
  then show ?thesis by (simp add: main_def)
qed

section \<open>Properties\<close>

text \<open>
  C21 (refinement of the whole run, spec 4.2--4.4). Against a store whose variant ids
  are unique, served in pages of any positive size, the run ends normally, and the catalog
  it leaves is the abstract policy applied to every product: each product is fetched and
  reordered exactly once, and the writes of one product touch no other.
\<close>

theorem store_run_refines:
  assumes "0 < psz" and "distinct (catalog_vids S0)" and "base_ok base"
  shows "\<exists>tr. processAllProducts (store_server base psz S0) [] = Some (Inr (), tr)
           \<and> store_after S0 tr = map reorder_product S0"
  using store_run [OF assms] by blast

theorem store_run_refines_witness:
  "\<exists>tr. processAllProducts (store_server demo_base 1 demo_catalog) [] = Some (Inr (), tr)
     \<and> store_after demo_catalog tr =
         [spec_widget\<lparr>variants := [\<lparr>vid = 10, vtitle = ''Sample'', position = 2\<rparr>,
                                    \<lparr>vid = 11, vtitle = ''Bolt'', position = 1\<rparr>]\<rparr>,
          demo_catalog ! 1]"
  using store_run_refines [OF _ demo_hyps, of 1] demo_reordered by simp

text \<open>
  C22 (bounds on the listing requests). In the same setting, a run issues exactly one
  GET per page of \<open>psz\<close> products, and one for an empty catalog: no page is fetched
  twice and no retry happens.
\<close>

theorem store_run_requests:
  assumes "0 < psz" and "distinct (catalog_vids S0)" and "base_ok base"
  shows "\<exists>tr. processAllProducts (store_server base psz S0) [] = Some (Inr (), tr)
           \<and> gets tr = pages_needed psz (length S0)"
  using store_run [OF assms] by blast

theorem store_run_requests_witness:
  "\<exists>tr. processAllProducts (store_server demo_base 1 demo_catalog) [] = Some (Inr (), tr) \<and> gets tr = 2"
proof -
  have "pages_needed 1 (length demo_catalog) = 2"
    by (simp add: demo_catalog_def pages_needed.simps)
  then show ?thesis using store_run_requests [OF _ demo_hyps, of 1] by simp
qed

text \<open>
  C23 (spec I1 over a whole run). When, in addition, the positions within every product
  are pairwise distinct, they are still pairwise distinct in every product of the catalog
  the run leaves.
\<close>

theorem store_run_positions_distinct:
  assumes "0 < psz" and "distinct (catalog_vids S0)" and "base_ok base"
    and "\<forall>p \<in> set S0. distinct (map position (variants p))"
  shows "\<exists>tr. processAllProducts (store_server base psz S0) [] = Some (Inr (), tr)
           \<and> (\<forall>p \<in> set (store_after S0 tr). distinct (map position (variants p)))"
proof -
  obtain tr where run: "processAllProducts (store_server base psz S0) [] = Some (Inr (), tr)"
    and st: "store_after S0 tr = map reorder_product S0"
    using store_run [OF assms(1-3)] by blast
  have "\<forall>p \<in> set S0. distinct (map position (variants (reorder_product p)))"
    using assms(2,4) catalog_wf_variants reorder_spec_distinct by (simp add: reorder_product_def)
  then show ?thesis using run st by auto
qed

theorem store_run_positions_distinct_witness:
  "\<exists>tr. processAllProducts (store_server demo_base 1 demo_catalog) [] = Some (Inr (), tr)
     \<and> list_all (\<lambda>p. distinct (map position (variants p))) (store_after demo_catalog tr)"
proof -
  have "\<forall>p \<in> set demo_catalog. distinct (map position (variants p))"
    by (simp add: demo_catalog_def spec_widget_def)
  then show ?thesis using store_run_positions_distinct [OF _ demo_hyps] by (simp add: list_all_iff)
qed

text \<open>
  C27 (liveness under rate limiting, spec 4.1 and 7). Against a store that answers every
  listing request with at most five 429s before serving it, the run still ends normally,
  with the same final catalog, after exactly \<open>q off + 1\<close> GETs for the page at each
  offset \<open>off\<close>.
\<close>

theorem throttled_run_completes:
  assumes "0 < psz" and "distinct (catalog_vids S0)" and "base_ok base" and "\<forall>j. q j \<le> 5"
  shows "\<exists>tr. processAllProducts (throttled_store q base psz S0) [] = Some (Inr (), tr)
           \<and> store_after S0 tr = map reorder_product S0 \<and> gets tr = listing_gets q psz (length S0) 0"
  using throttled_run [OF assms] .

theorem throttled_run_completes_witness:
  "\<exists>tr. processAllProducts (throttled_store (\<lambda>j. if j = 0 then 5 else 1) demo_base 1 demo_catalog) [] = Some (Inr (), tr)
     \<and> store_after demo_catalog tr =
         [spec_widget\<lparr>variants := [\<lparr>vid = 10, vtitle = ''Sample'', position = 2\<rparr>,
                                    \<lparr>vid = 11, vtitle = ''Bolt'', position = 1\<rparr>]\<rparr>,
          demo_catalog ! 1]
     \<and> gets tr = 8"
proof -
  have q: "\<forall>j. (if j = 0 then 5 else 1) \<le> (5::nat)" by simp
  have "listing_gets (\<lambda>j. if j = 0 then 5 else 1) 1 (length demo_catalog) 0 = 8"
    by (simp add: demo_catalog_def listing_gets.simps)
  then show ?thesis using throttled_run_completes [OF _ demo_hyps q, of 1] demo_reordered by simp
qed


text \<open>
  C32 (spec 7, a rate limit that outlasts the budget ends the run). Against the
  rate-limited store, when the page \<open>m\<close> pages into the listing is refused six times or
  more and the pages before it within the budget, the run fails with that 429: the
  \<open>RateLimited\<close> read becomes a \<open>RequestFailure\<close> that aborts the run, after the
  products of the pages before it have been reordered and before any product of that page
  or a later one is.
\<close>

theorem throttled_run_fails:
  assumes "0 < psz" and "distinct (catalog_vids S0)" and "base_ok base"
    and "m * psz < length S0" and "5 < q (m * psz)" and "\<forall>i < m. q (i * psz) \<le> 5"
  shows "\<exists>tr. processAllProducts (throttled_store q base psz S0) [] = Some (Inl (HttpError 429 ''Too Many Requests''), tr)
           \<and> store_after S0 tr = map reorder_product (take (m * psz) S0) @ drop (m * psz) S0"
proof -
  have "parse_listing ''products.json?limit=250'' = Some 0" by (simp add: parse_listing_def)
  moreover have "store_after S0 [] = map reorder_product (take 0 S0) @ drop 0 S0" by simp
  ultimately obtain tr where
    "pageLoop (throttled_store q base psz S0) ''products.json?limit=250'' 0 [] = Some (Inl (HttpError 429 ''Too Many Requests''), tr)"
    and "store_after S0 tr = map reorder_product (take (m * psz) S0) @ drop (m * psz) S0"
    using throttled_loop_blocked [OF assms(1-3), of "''products.json?limit=250''" 0 "[]" m q 0] assms(4-6) by auto
  then show ?thesis by (simp add: processAllProducts_def)
qed

theorem throttled_run_fails_witness:
  "\<exists>tr. processAllProducts (throttled_store (\<lambda>j. if j = 1 then 6 else 0) demo_base 1 (rev demo_catalog)) []
         = Some (Inl (HttpError 429 ''Too Many Requests''), tr)
     \<and> store_after (rev demo_catalog) tr = rev demo_catalog"
proof -
  have d: "distinct (catalog_vids (rev demo_catalog))" by (simp add: demo_catalog_def spec_widget_def)
  have r: "map reorder_product (take 1 (rev demo_catalog)) @ drop 1 (rev demo_catalog) = rev demo_catalog"
    by code_simp
  have "\<forall>i < 1. (\<lambda>j. if j = 1 then 6 else 0) ((i::nat) * 1) \<le> (5::nat)" by simp
  then show ?thesis
    using throttled_run_fails [OF _ d demo_hyps(2), of 1 1 "\<lambda>j. if j = 1 then 6 else 0"] r
    by (simp add: demo_catalog_def)
qed


text \<open>
  C25 (finding: the configuration is not checked; spec 6). When neither the process
  environment nor the \<^verbatim>\<open>.env\<close> file sets \<^verbatim>\<open>SHOPIFY_STORE\<close> and
  \<^verbatim>\<open>SHOPIFY_ACCESS_TOKEN\<close>, the program still starts and sends its requests, to the
  host \<^verbatim>\<open>undefined.myshopify.com\<close> with an undefined access token; against a store
  that requires a token, the run ends at its first request with the 401 report, having
  written nothing.
\<close>

theorem unset_config_requests:
  assumes "penv ''SHOPIFY_STORE'' = None" and "map_of file ''SHOPIFY_STORE'' = None"
    and "penv ''SHOPIFY_ACCESS_TOKEN'' = None" and "map_of file ''SHOPIFY_ACCESS_TOKEN'' = None"
  shows "wire_request (startup_config penv file) (EvGet u) =
           Some \<lparr>req_method = GET, req_url = ''https://undefined.myshopify.com/admin/api/2023-10/'' @ u,
                 req_headers = [(''X-Shopify-Access-Token'', None), (''Content-Type'', Some ''application/json'')],
                 req_body = None\<rparr>
         \<and> main (auth_store tok (startup_config penv file) T) =
             Some [EvGet ''products.json?limit=250'', EvError (HttpError 401 auth_error)]"
proof -
  have c: "startup_config penv file = \<lparr>SHOPIFY_STORE = None, SHOPIFY_ACCESS_TOKEN = None\<rparr>"
    using assms by (rule startup_unset)
  have "main (auth_store tok (startup_config penv file) T) =
          Some [EvGet ''products.json?limit=250'', EvError (HttpError 401 auth_error)]"
    by (rule auth_reject_run) (simp add: c)
  then show ?thesis
    by (simp add: c baseURL_def template_str_def ADMIN_API_VERSION_def apiClient_headers_def)
qed

theorem unset_config_requests_witness:
  "wire_request (startup_config (\<lambda>_. None) [(''API_VERSION'', ''2024-01'')]) (EvGet ''products.json?limit=250'') =
     Some \<lparr>req_method = GET, req_url = ''https://undefined.myshopify.com/admin/api/2023-10/products.json?limit=250'',
           req_headers = [(''X-Shopify-Access-Token'', None), (''Content-Type'', Some ''application/json'')],
           req_body = None\<rparr>
   \<and> main (auth_store ''shpat_demo'' (startup_config (\<lambda>_. None) [(''API_VERSION'', ''2024-01'')])
             (store_server demo_base 1 demo_catalog)) =
     Some [EvGet ''products.json?limit=250'', EvError (HttpError 401 auth_error)]"
  using unset_config_requests [of "\<lambda>_. None" "[(''API_VERSION'', ''2024-01'')]" "''products.json?limit=250''"
      "''shpat_demo''" "store_server demo_base 1 demo_catalog"]
  by simp

end
