(* ===== verification/Console.thy ===== *)
theory Console
  imports Orchestrator
begin

text \<open>
  The console output of the program (\<^verbatim>\<open>src/index.js\<close>, lines 25, 43, 60, 70--71, 76
  and 94): the text of each line the program writes, rendered from the events of the
  history, with the stream it goes to (\<^verbatim>\<open>console.log\<close> writes to standard output,
  \<^verbatim>\<open>console.warn\<close> and \<^verbatim>\<open>console.error\<close> to standard error). The lemmas give the
  warnings of the retrier (whole seconds, doubling), the numbering of the progress lines
  and the output of a failed run.
\<close>

section \<open>Definitions\<close>

datatype stream = Stdout | Stderr

text \<open>
  \<^verbatim>\<open>${delay / 1000}\<close>: the JavaScript number \<open>delay / 1000\<close> in a template literal.
  It has at most three decimals; JavaScript prints the shortest decimal that reads back as
  the same number, which for \<open>delay < 10^15\<close> (at most 15 significant digits) is the
  exact quotient: the whole part, and the decimals without trailing zeros when there are
  any.
\<close>

definition decimals3 :: "nat \<Rightarrow> string" where
  "decimals3 r =
     rev (dropWhile (\<lambda>c. c = CHR ''0'')
       (rev [char_of (48 + r div 100), char_of (48 + r div 10 mod 10), char_of (48 + r mod 10)]))"

definition seconds_text :: "nat \<Rightarrow> string" where
  "seconds_text delay =
     (if delay mod 1000 = 0 then string_of_nat (delay div 1000)
      else string_of_nat (delay div 1000) @ ''.'' @ decimals3 (delay mod 1000))"

text \<open>
  The lines of the code, each with the stream it goes to. \<^verbatim>\<open>console.log\<close> with one
  string prints it as it is (no format directives are read without further arguments), so
  a product title is printed verbatim; the completion line carries its own line break.
\<close>

text \<open>Line 25, \<^verbatim>\<open>console.warn\<close> in \<^verbatim>\<open>retryRequest\<close>.\<close>

definition warn_line :: "nat \<Rightarrow> stream \<times> string" where
  "warn_line delay = (Stderr, ''Received 429 Too Many Requests. Retrying in '' @ seconds_text delay @ '' seconds...'')"

text \<open>Line 43, the progress line of a page.\<close>

definition page_line :: "nat \<Rightarrow> nat \<Rightarrow> stream \<times> string" where
  "page_line pageNumber n = (Stdout, ''Processing page '' @ string_of_nat pageNumber @ '' with '' @ string_of_nat n @ '' products...'')"

text \<open>Line 60, the closing line.\<close>

definition closing_line :: "stream \<times> string" where
  "closing_line = (Stdout, ''Finished processing all products.'')"

text \<open>Lines 70--71, the two lines announcing a reorder.\<close>

definition reorder_lines :: "nat \<Rightarrow> string \<Rightarrow> int \<Rightarrow> int \<Rightarrow> (stream \<times> string) list" where
  "reorder_lines i t ps pb =
     [(Stdout, ''Reordering Product ID: '' @ string_of_nat i @ '' - '' @ [CHR 0x22] @ t @ [CHR 0x22]),
      (Stdout, ''Current Order: Sample (pos: '' @ string_of_int ps @ '') before Bolt (pos: '' @ string_of_int pb @ '')'')]"

text \<open>Line 76, \<^verbatim>\<open>console.log('Reorder complete.\n')\<close>.\<close>

definition complete_line :: "stream \<times> string" where
  "complete_line = (Stdout, ''Reorder complete.'' @ [CHR 0x0A])"

text \<open>
  Line 94, \<^verbatim>\<open>console.error('Error occurred:', error.response.data)\<close>: the arguments
  joined with a space, the model's body being the printed response data.
\<close>

definition error_line :: "string \<Rightarrow> stream \<times> string" where
  "error_line body = (Stderr, ''Error occurred: '' @ body)"

lemmas console_texts = warn_line_def page_line_def closing_line_def reorder_lines_def complete_line_def error_line_def

text \<open>
  The lines each event prints. For a failure with no response line 94 prints the axios
  error object itself, whose inspection (stack trace included) the model does not hold:
  that output is \<open>None\<close>. Requests and sleeps print nothing.
\<close>

fun console_lines :: "event \<Rightarrow> (stream \<times> string) list option" where
  "console_lines (EvWarn429 delay) = Some [warn_line delay]"
| "console_lines (EvPage pageNumber n) = Some [page_line pageNumber n]"
| "console_lines (EvReorder i t ps pb) = Some (reorder_lines i t ps pb)"
| "console_lines EvReorderDone = Some [complete_line]"
| "console_lines EvFinished = Some [closing_line]"
| "console_lines (EvError (HttpError status body)) = Some [error_line body]"
| "console_lines (EvError NetworkError) = None"
| "console_lines (EvGet u) = Some []"
| "console_lines (EvPut v p) = Some []"
| "console_lines (EvSleep ms) = Some []"

text \<open>The output of a history: its events' lines in order.\<close>

fun console_output :: "event list \<Rightarrow> (stream \<times> string) list option" where
  "console_output [] = Some []"
| "console_output (e # es) =
     (case console_lines e of
        None \<Rightarrow> None
      | Some ls \<Rightarrow> map_option (\<lambda>rest. ls @ rest) (console_output es))"

text \<open>The numbers of the \<open>Processing page\<close> lines of a history, in order.\<close>

fun page_numbers :: "event list \<Rightarrow> nat list" where
  "page_numbers [] = []"
| "page_numbers (EvPage k n # es) = k # page_numbers es"
| "page_numbers (e # es) = page_numbers es"

section \<open>Lemmas\<close>

lemma seconds_text_whole: "seconds_text (1000 * n) = string_of_nat n"
  by (simp add: seconds_text_def)

lemma console_output_append:
  "console_output xs = Some a \<Longrightarrow> console_output (xs @ ys) = map_option (\<lambda>rest. a @ rest) (console_output ys)"
proof (induction xs arbitrary: a)
  case Nil
  then show ?case by (simp add: option.map_ident)
next
  case (Cons e xs)
  then show ?case by (cases "console_output ys") (auto split: option.splits)
qed

lemma page_numbers_append [simp]: "page_numbers (xs @ ys) = page_numbers xs @ page_numbers ys"
  by (induction xs rule: page_numbers.induct) auto

lemma page_numbers_no_page: "\<forall>e \<in> set es. \<not> is_page e \<Longrightarrow> page_numbers es = []"
  by (induction es rule: page_numbers.induct) auto

lemma backoff_console:
  "console_output (backoff_trace url d k) =
     Some (map (\<lambda>i. warn_line (d * 2 ^ i)) [0..<k])"
proof (induction k arbitrary: d)
  case 0
  then show ?case by simp
next
  case (Suc k)
  have "[0..<Suc k] = 0 # map Suc [0..<k]" by (simp add: map_Suc_upt upt_conv_Cons)
  then show ?case using Suc [of "d * 2"] by (simp add: backoff_trace_Suc comp_def mult.assoc)
qed

lemma check_events:
  "checkAndReorderVariants T p tr = (r, tr') \<Longrightarrow> \<exists>seg. tr' = tr @ seg \<and> (\<forall>e \<in> set seg. e \<noteq> EvFinished \<and> \<not> is_page e)"
  by (cases rule: check_cases) auto

lemma process_events:
  "processProducts T ps tr = (r, tr') \<Longrightarrow> \<exists>seg. tr' = tr @ seg \<and> (\<forall>e \<in> set seg. e \<noteq> EvFinished \<and> \<not> is_page e)"
proof (induction ps arbitrary: tr)
  case Nil
  then show ?case by simp
next
  case (Cons p ps)
  obtain r1 tr1 where c: "checkAndReorderVariants T p tr = (r1, tr1)" by fastforce
  then obtain seg1 where s1: "tr1 = tr @ seg1" "\<forall>e \<in> set seg1. e \<noteq> EvFinished \<and> \<not> is_page e"
    using check_events by blast
  show ?case
  proof (cases r1)
    case (Inl e)
    then show ?thesis using Cons.prems c s1 by auto
  next
    case (Inr u)
    then obtain seg2 where "tr' = tr1 @ seg2" "\<forall>e \<in> set seg2. e \<noteq> EvFinished \<and> \<not> is_page e"
      using Cons.prems c Cons.IH by auto
    then show ?thesis using s1 by (intro exI [of _ "seg1 @ seg2"]) auto
  qed
qed

lemma retry_events:
  "retryRequest T url 5 1000 tr = (r, tr') \<Longrightarrow> \<exists>seg. tr' = tr @ seg \<and> (\<forall>e \<in> set seg. e \<noteq> EvFinished \<and> \<not> is_page e)"
proof -
  assume "retryRequest T url 5 1000 tr = (r, tr')"
  then obtain k where "tr' = tr @ backoff_trace url 1000 k @ [EvGet url]"
    using retry_shape [of 5 T url 1000 tr] by auto
  then show ?thesis by (auto simp: backoff_trace_def)
qed

text \<open>
  The events the page loop adds: its \<open>Processing page\<close> lines count on from the page
  number it starts with, and it never logs the closing line.
\<close>

lemma loop_page_lines:
  assumes "pageLoop T url n tr = Some y"
  shows "\<exists>seg. snd y = tr @ seg \<and> page_numbers seg = [Suc n..<Suc n + pages seg] \<and> EvFinished \<notin> set seg"
  using assms
proof (induction rule: loop_rule)
  case (fetch_fail url n tr e tr1)
  then show ?case using retry_events [OF fetch_fail] by (auto simp: page_numbers_no_page pages_def filter_empty_conv)
next
  case (no_products url n tr pg tr1)
  then show ?case using retry_events [OF no_products(1)] by (auto simp: page_numbers_no_page pages_def filter_empty_conv)
next
  case (page_stop url n tr pg tr1 ps r tr2)
  obtain seg1 where s1: "tr1 = tr @ seg1" "\<forall>e \<in> set seg1. e \<noteq> EvFinished \<and> \<not> is_page e"
    using retry_events [OF page_stop(1)] by blast
  obtain seg2 where s2: "tr2 = (tr1 @ [EvPage (Suc n) (length ps)]) @ seg2"
    "\<forall>e \<in> set seg2. e \<noteq> EvFinished \<and> \<not> is_page e"
    using process_events [OF page_stop(4)] by blast
  have "pages (seg1 @ EvPage (Suc n) (length ps) # seg2) = 1"
    using s1(2) s2(2) by (simp add: pages_def filter_empty_conv)
  then show ?case using s1 s2
    by (intro exI [of _ "seg1 @ EvPage (Suc n) (length ps) # seg2"]) (auto simp: page_numbers_no_page)
next
  case (next_page url n tr pg tr1 ps tr2 url' y)
  obtain seg1 where s1: "tr1 = tr @ seg1" "\<forall>e \<in> set seg1. e \<noteq> EvFinished \<and> \<not> is_page e"
    using retry_events [OF next_page(1)] by blast
  obtain seg2 where s2: "tr2 = (tr1 @ [EvPage (Suc n) (length ps)]) @ seg2"
    "\<forall>e \<in> set seg2. e \<noteq> EvFinished \<and> \<not> is_page e"
    using process_events [OF next_page(4)] by blast
  obtain seg3 where s3: "snd y = tr2 @ seg3" "page_numbers seg3 = [Suc (Suc n)..<Suc (Suc n) + pages seg3]"
    "EvFinished \<notin> set seg3"
    using next_page(6) by blast
  let ?seg = "seg1 @ EvPage (Suc n) (length ps) # seg2 @ seg3"
  have "pages ?seg = Suc (pages seg3)"
    using s1(2) s2(2) by (simp add: pages_def filter_empty_conv)
  moreover have "page_numbers ?seg = Suc n # [Suc (Suc n)..<Suc (Suc n) + pages seg3]"
    using s1(2) s2(2) s3(2) by (simp add: page_numbers_no_page)
  ultimately have "page_numbers ?seg = [Suc n..<Suc n + pages ?seg]" by (simp add: upt_conv_Cons)
  then show ?case using s1 s2 s3 by (intro exI [of _ ?seg]) auto
qed

text \<open>Only the closing event prints the closing line.\<close>

lemma closing_line_only:
  "console_lines e = Some ls \<Longrightarrow> (Stdout, ''Finished processing all products.'') \<in> set ls \<Longrightarrow> e = EvFinished"
  by (cases e rule: console_lines.cases) (auto simp: console_texts)

lemma output_finished:
  "console_output es = Some ls \<Longrightarrow> EvFinished \<notin> set es \<Longrightarrow> (Stdout, ''Finished processing all products.'') \<notin> set ls"
proof (induction es arbitrary: ls)
  case Nil
  then show ?case by simp
next
  case (Cons e es)
  then show ?case by (auto split: option.splits dest: closing_line_only)
qed

lemma no_error_output:
  "\<forall>e \<in> set es. \<not> is_error e \<Longrightarrow> \<exists>ls. console_output es = Some ls"
proof (induction es)
  case Nil
  then show ?case by simp
next
  case (Cons e es)
  then show ?case by (cases e rule: console_lines.cases) auto
qed


section \<open>Properties\<close>

text \<open>
  C29 (spec 4.1, retry warnings; bounds). Whatever the server answers, the warnings one
  \<^verbatim>\<open>retryRequest(url)\<close> call prints with its default budget and delay are at most five,
  each followed by a retry, and they name whole numbers of seconds doubling from 1:
  \<open>Retrying in 1 seconds...\<close>, \<open>2\<close>, \<open>4\<close>, \<open>8\<close>, \<open>16\<close>.
\<close>

theorem retry_warning_lines:
  "\<exists>k \<le> 5. \<exists>seg. snd (retryRequest T url 5 1000 tr) = tr @ seg \<and> gets seg = Suc k
     \<and> console_output seg =
         Some (map (\<lambda>i. (Stderr, ''Received 429 Too Many Requests. Retrying in '' @ string_of_nat (2 ^ i) @ '' seconds...''))
                   [0..<k])"
proof -
  obtain k where "k \<le> 5" and "retryRequest T url 5 1000 tr =
      (reply_result (get_reply T (tr @ backoff_trace url 1000 k) url), tr @ backoff_trace url 1000 k @ [EvGet url])"
    using retry_shape [of 5 T url 1000 tr] by blast
  then have "k \<le> 5" and tr': "snd (retryRequest T url 5 1000 tr) = tr @ backoff_trace url 1000 k @ [EvGet url]"
    by simp_all
  moreover have "console_output (backoff_trace url 1000 k @ [EvGet url]) =
      Some (map (\<lambda>i. (Stderr, ''Received 429 Too Many Requests. Retrying in '' @ string_of_nat (2 ^ i) @ '' seconds...''))
                [0..<k])"
    using console_output_append [OF backoff_console] by (simp add: warn_line_def seconds_text_whole)
  ultimately show ?thesis by (intro exI [of _ k] conjI exI [of _ "backoff_trace url 1000 k @ [EvGet url]"]) simp_all
qed

text \<open>
  C30 (progress lines; invariant of the page loop). In the output of every process that
  ends, whatever the server does, the \<open>Processing page\<close> lines are numbered
  1, 2, \<dots>, n in order, n being their count: \<^verbatim>\<open>pageNumber\<close> is incremented once per
  processed page and never reset.
\<close>

theorem run_pages_numbered:
  assumes "main T = Some out"
  shows "page_numbers out = [1..<Suc (pages out)]"
proof -
  obtain y where y: "pageLoop T ''products.json?limit=250'' 0 [] = Some y"
    using assms by (auto simp: main_def processAllProducts_def split: option.splits)
  obtain seg where seg: "snd y = seg" "page_numbers seg = [1..<Suc (pages seg)]"
    using loop_page_lines [OF y] by auto
  obtain tl where "out = snd y @ tl" "\<forall>e \<in> set tl. \<not> is_page e"
    using assms y by (cases y) (auto simp: main_def processAllProducts_def split: sum.splits)
  then show ?thesis using seg by (simp add: page_numbers_no_page pages_def filter_empty_conv)
qed

theorem run_pages_numbered_witness:
  "main (scripted [spec_page]) =
     Some [EvGet ''products.json?limit=250'', EvPage 1 1,
           EvReorder 1 ''Widget'' 1 2, EvPut 11 1, EvSleep 1000, EvPut 10 2, EvSleep 1000,
           EvReorderDone, EvFinished]
   \<and> page_numbers [EvGet ''products.json?limit=250'', EvPage 1 1,
           EvReorder 1 ''Widget'' 1 2, EvPut 11 1, EvSleep 1000, EvPut 10 2, EvSleep 1000,
           EvReorderDone, EvFinished] = [1]"
proof -
  have m: "main (scripted [spec_page]) =
     Some [EvGet ''products.json?limit=250'', EvPage 1 1,
           EvReorder 1 ''Widget'' 1 2, EvPut 11 1, EvSleep 1000, EvPut 10 2, EvSleep 1000,
           EvReorderDone, EvFinished]"
    by (simp add: main_def spec_page_run)
  show ?thesis using m run_pages_numbered [OF m] by (simp add: pages_def)
qed

text \<open>
  C31 (spec 7, user-visible failure). When the run fails with an HTTP error, the console
  output of the process ends with the one report \<open>Error occurred: \<close> and the response
  body on standard error, and the closing line \<open>Finished processing all products.\<close>
  is never printed.
\<close>

theorem failure_console_report:
  assumes "processAllProducts T [] = Some (Inl (HttpError status body), tr)"
  shows "\<exists>ls. map_option console_output (main T) = Some (Some (ls @ [(Stderr, ''Error occurred: '' @ body)]))
             \<and> (Stdout, ''Finished processing all products.'') \<notin> set ls"
proof -
  obtain ls where ls: "console_output tr = Some ls"
    using no_error_output all_products_inv [OF assms] by (auto simp: result_inv_def)
  obtain y where y: "pageLoop T ''products.json?limit=250'' 0 [] = Some y" "snd y = tr"
    using assms by (cases "pageLoop T ''products.json?limit=250'' 0 []")
      (auto simp: processAllProducts_def split: sum.splits)
  have "EvFinished \<notin> set tr" using loop_page_lines [OF y(1)] y(2) by auto
  with ls have "(Stdout, ''Finished processing all products.'') \<notin> set ls" by (rule output_finished)
  moreover have "map_option console_output (main T) = Some (Some (ls @ [(Stderr, ''Error occurred: '' @ body)]))"
    using assms console_output_append [OF ls] by (simp add: main_def error_line_def)
  ultimately show ?thesis by blast
qed

theorem failure_console_report_witness:
  "processAllProducts (accept_all\<lparr>get_reply := (\<lambda>_ _. Fail 503 ''Service Unavailable'')\<rparr>) [] =
     Some (Inl (HttpError 503 ''Service Unavailable''), [EvGet ''products.json?limit=250''])
   \<and> map_option console_output (main (accept_all\<lparr>get_reply := (\<lambda>_ _. Fail 503 ''Service Unavailable'')\<rparr>)) =
     Some (Some [(Stderr, ''Error occurred: Service Unavailable'')])"
proof -
  let ?T = "accept_all\<lparr>get_reply := (\<lambda>_ _. Fail 503 ''Service Unavailable'')\<rparr>"
  have run: "processAllProducts ?T [] =
     Some (Inl (HttpError 503 ''Service Unavailable''), [EvGet ''products.json?limit=250''])"
    by (rule first_fetch_fails) simp_all
  obtain ls where "map_option console_output (main ?T) = Some (Some (ls @ [(Stderr, ''Error occurred: '' @ ''Service Unavailable'')]))"
    using failure_console_report [OF run] by blast
  moreover have "main ?T = Some [EvGet ''products.json?limit=250'', EvError (HttpError 503 ''Service Unavailable'')]"
    using run by (simp add: main_def)
  ultimately show ?thesis using run by simp
qed

end
