(* ===== verification/Spec2Isabelle.thy ===== *)
theory Spec2Isabelle
  imports Store_Runs Link_Grammar Console
begin

text \<open>
  \<^bold>\<open>Shopify variant position corrector: a verification development.\<close>

  The program (\<^verbatim>\<open>src/index.js\<close>, 95 lines) walks the whole product catalog of a
  store through the Admin REST API and, for every product whose first variant titled
  "sample" comes before its first variant titled "bolt", swaps the two positions with two
  PUT requests separated by pacing sleeps. Its parts, and the theory that models each:

  \<^item> \<^bold>\<open>Data and transport\<close> (\<open>Shop_Model\<close>). The JSON objects read by the code are
    records (\<open>variant\<close>, \<open>product\<close>, \<open>page\<close>); the outcome of an axios call is
    \<open>'a reply\<close> (\<open>Ok\<close> for 2xx, \<open>Fail status body\<close> for a response with another
    status, \<open>NoResponse\<close>); the transport (the axios client of lines 8--14 and the store
    behind it) is the record \<open>transport\<close> of two functions from the history of the run
    and the request to the reply. Every observable effect (request, sleep, console line)
    is an \<open>event\<close>; an operation maps the history so far to its result and the extended
    history (\<open>'a outcome\<close>), errors being the left values of a sum
    (\<open>http_error\<close>). \<^verbatim>\<open>sleep\<close> (lines 16--18) is \<open>sleep\<close>, the suspension it
    adds to the history. \<^verbatim>\<open>toLowerCase\<close> and \<^verbatim>\<open>includes\<close> are modelled on
    Latin-1 characters (\<open>toLowerCase\<close>, \<open>str_includes\<close>).
  \<^item> \<^bold>\<open>Backoff retrier\<close> (\<open>Retrier\<close>): \<^verbatim>\<open>retryRequest\<close> (lines 20--31) is
    \<open>retryRequest\<close>, a \<^theory_text>\<open>fun\<close> that terminates on its retry budget.
    \<open>retry_shape\<close> gives the exact history of every run; the properties are the
    spec's P4 and P5, the bounds on requests and waiting, and no retry on other errors.
  \<^item> \<^bold>\<open>Link header\<close> (\<open>Link_Header\<close>): the regular expression of line 51 is
    modelled by its ECMAScript backtracking semantics, built from the combinators of
    \<open>Prelude\<close> (\<open>first_some\<close> for the order of alternatives, \<open>star_greedy\<close> for a
    greedy \<open>*\<close>, \<open>match_lit\<close> for literals): \<open>link_regex_at\<close> at one position,
    \<open>link_match\<close> over all start positions; \<open>next_page_url\<close> is lines 49--57. The
    properties: the match is sound, the cursor after the last \<open>page_info=\<close> is
    extracted (P7, C8), and the match is sound (C14).
  \<^item> \<^bold>\<open>Reorder policy\<close> (\<open>Reorder\<close>): \<open>find_variant\<close>,
    \<open>checkAndReorderVariants\<close> (lines 63--78) and \<open>updateVariantPosition\<close>
    (lines 80--88). The store semantics of a write (\<open>apply_put\<close>, spec section 6) and
    the abstract policy \<open>reorder_spec\<close> (spec 4.3) give a refinement theorem; the other
    properties are P1--P3, the invariant I1, the partial failure I2 and first-match
    classification.
  \<^item> \<^bold>\<open>Pager\<close> (\<open>Pager\<close>): \<^verbatim>\<open>processAllProducts\<close> (lines 33--61). Its
    \<^verbatim>\<open>while (true)\<close> loop has no bound in the code, so it is the
    \<^theory_text>\<open>partial_function (option)\<close> \<open>pageLoop\<close>; \<open>None\<close> is a run that never
    ends. Termination is proved, not assumed, for every finite script of pages
    (\<open>scripted\<close>), and P6 gives the exact number of pages and requests.
    \<open>loop_rule\<close> is the fixpoint induction of the loop
    (\<open>pageLoop.raw_induct\<close>) stated once, one case per way an iteration ends; the
    invariants of \<open>Orchestrator\<close> and \<open>Console\<close> are proved with it.
  \<^item> \<^bold>\<open>Orchestrator\<close> (\<open>Orchestrator\<close>): the top-level async function (lines
    90--96) is \<open>main\<close>. The run invariant \<open>result_inv\<close> is proved for every
    transport by fixpoint induction (\<open>loop_rule\<close>).
  \<^item> \<^bold>\<open>Client configuration and requests\<close> (\<open>Transport\<close>): startup (lines 2--6):
    dotenv's loading of the \<^verbatim>\<open>.env\<close> assignments into the process environment
    without overriding it (\<open>dotenv_config\<close>) and the reading of the two variables
    (\<open>read_config\<close>, \<open>startup_config\<close>; unset is \<open>None\<close>), \<open>ADMIN_API_VERSION\<close>, the axios
    instance's \<open>baseURL\<close> and \<open>apiClient_headers\<close> (lines 4--14), and the request
    each request event puts on the wire (\<open>wire_request\<close>): the update's path
    \<open>variant_path\<close> and JSON body \<open>variant_body\<close> (lines 82--87), with numbers
    rendered by \<open>string_of_nat\<close> and \<open>string_of_int\<close>. The store's reading of a
    request (\<open>parse_put\<close>, spec section 6) gives the round trip C24. C25 (in
    \<open>Store_Runs\<close>) follows an unset configuration from the environment and the file to
    the wire and to a run the store refuses: it is never detected.
  \<^item> \<^bold>\<open>Remote store\<close> (\<open>Store\<close>, from spec section 6; not code of the
    repository): \<open>store_server\<close> serves a catalog in pages of \<open>psz\<close> products,
    with decimal offsets as cursors and Shopify-style \<open>previous\<close>/\<open>next\<close> link
    headers (\<open>store_link\<close>), and applies each PUT to the catalog
    (\<open>store_put\<close>); its state is the catalog after the writes of the history
    (\<open>store_after\<close>). \<open>throttled_store\<close> adds rate limiting: the page at offset
    \<open>off\<close> is answered with \<open>q off\<close> 429s before it is served, and
    \<open>store_server\<close> is the case \<open>q = 0\<close>. \<open>throttled_loop\<close> follows the page
    loop against this server by induction on the products left, through the retrier, the
    regular expression on both header shapes and the policy on every product; the runs
    and their properties are in \<open>Store_Runs\<close>. \<open>auth_store\<close> puts the access-token
    check in front of any server: a client whose token header is not the store's gets 401.
  \<^item> \<^bold>\<open>Link grammar\<close> (\<open>Link_Grammar\<close>, from spec sections 6 and 9): the
    printer of link headers (\<open>print_links\<close>, and \<open>shopify_header\<close> for the
    listing URLs Shopify sends, on a base URL with no \<open>>\<close>, \<open>?\<close> or comma,
    \<open>base_ok\<close>, and URL-safe cursors, \<open>cursor_ok\<close>) and the structured reading
    that spec 9 recommends (\<open>link_values\<close>, a \<^theory_text>\<open>function\<close> terminating on the
    length of the rest, \<open>query_param\<close>, \<open>structured_next_url\<close>). The reading
    inverts the printer (\<open>link_values_print\<close>); the pager's regular expression reads
    back the printed next cursor in both entry orders (C28) and so agrees with the
    structured reading on every such header (\<open>regex_shopify\<close> and
    \<open>structured_shopify\<close>), the store's headers included; on a header whose \<open>next\<close>
    URL has no cursor after a \<open>previous\<close> URL that has one, the pattern goes back a
    page where the structured reading stops (C15).
  \<^item> \<^bold>\<open>Console output\<close> (\<open>Console\<close>): each console line of the code is a
    definition giving its stream and text (\<open>warn_line\<close> line 25, \<open>page_line\<close> 43,
    \<open>closing_line\<close> 60, \<open>reorder_lines\<close> 70--71, \<open>complete_line\<close> 76,
    \<open>error_line\<close> 94), with \<^verbatim>\<open>${delay / 1000}\<close> printed as JavaScript prints the
    number (\<open>seconds_text\<close>); \<open>console_output\<close> renders a history. The
    properties: the retry warnings (C29), the numbering of the progress lines over a run
    (C30) and the output of a failed run (C31).

  This theory states the properties that span the components: every write is paced
  (C11), the bound of six GETs per processed page (C19) and the shape of every GET a run
  issues (C26). The whole-run properties against the store are in
  \<open>Store_Runs\<close>:
  the final catalog is the abstract policy applied to every product (C21, a refinement of
  the run, which also shows that the run ends), one GET per page (C22), the invariant
  I1 over the run (C23), and the same outcome when every page is rate-limited at most
  five times (C27, liveness); when one page is refused six times the run fails with
  that 429 after reordering exactly the products of the pages before it (C32). The
  pager's regular expression inverts the printer of Shopify's headers (C28, round trip),
  in \<open>Link_Grammar\<close>. What the user sees on the console is in \<open>Console\<close>
  (C29--C31).

  \<^bold>\<open>Order of the work and plan.\<close> The reorder policy (the program's purpose) was
  modelled first, with its contract \<open>reorder_spec\<close>; then the retrier, the link header,
  the page loop and the top level; then the client configuration and the wire form of the
  requests, and a store server against which whole runs are proved correct (this lifted
  I1 from one product to a run); then the link grammar and its structured reading, which
  the pager's regular expression was shown equal to on every header Shopify sends (beside
  the family of headers of C15, where they differ). Then the console
  output, the run-level failure under a rate limit that outlasts the budget, the
  case-insensitivity of the classification (C33, in \<open>Reorder\<close>: titles are seen only
  through \<open>toLowerCase\<close>, \<open>case_key\<close>); last, startup
  (dotenv and the configuration) and the store's token check, which carry C25 from the
  environment to the run. Left for later:
  characters beyond Latin-1 in titles (JavaScript strings are UTF-16, and
  \<open>toLowerCase\<close> maps far more capitals than the 56 of Latin-1), and the pagination
  race of spec section 7 against a listing that changes while it is paged.

  \<^bold>\<open>Bounds and fuel.\<close> No fuel is used: the retrier recurses on its budget (5 in the
  code), and the page loop is a partial function whose termination is a theorem for finite
  scripts (C16) and for every finite catalog of the store (C21). Delays are \<open>nat\<close>:
  with a budget of 5 the largest delay is 16000 ms, far from any limit of JavaScript
  numbers, so no wrap-around is modelled; \<open>seconds_text\<close> prints \<open>delay / 1000\<close>
  exactly as JavaScript does for delays below \<open>10^15\<close>, which covers every delay the
  retrier can reach. Ids are \<open>nat\<close> and positions \<open>int\<close>:
  Shopify ids stay below \<open>2^53\<close>, where JavaScript numbers are exact integers and
  print as plain decimals, which is what \<open>string_of_nat\<close> and \<open>string_of_int\<close>
  produce.

  \<^bold>\<open>Not modelled.\<close> The HTTP transport itself (the network, TLS, axios's
  internals: the transport is an arbitrary function of the history, and line 1 only
  imports the client library it stands for) and dotenv's parsing of the text of the
  \<^verbatim>\<open>.env\<close> file (its result, the list of assignments, is the input of
  \<open>dotenv_config\<close>); the console report of a failure with no response
  (line 94 prints the axios error object, whose inspection the model does not hold; its
  output is \<open>None\<close>); malformed JSON (a product without \<^verbatim>\<open>variants\<close> or a variant
  without a string \<^verbatim>\<open>title\<close> would throw a TypeError in the code; the records assume
  the documented schema); JavaScript characters beyond Latin-1; and the process exit
  status, which the code never sets. The store is one server among those the transport
  allows, chosen to state whole-run properties. C1--C20 are stated for every transport,
  some with hypotheses on its replies, except C7 and C16, which are stated for every
  server that serves a finite script of pages (\<open>scripted\<close>).
\<close>

section \<open>Properties across components\<close>

text \<open>
  C11 (spec 4.3 and 5, pacing). Whatever the server does, in the history of a run that
  returns, every write request that is followed by another event is followed at once by
  the 1000 ms sleep; a history that ends with a write belongs to a failed run; and no
  error has been reported before the top level.
\<close>

theorem writes_paced:
  assumes "processAllProducts T [] = Some (r, tr)"
  shows "paced tr \<and> (ends_put tr \<longrightarrow> isl r) \<and> (\<forall>e \<in> set tr. \<not> is_error e)"
  using all_products_inv [OF assms] by (simp add: result_inv_def)

theorem writes_paced_witness:
  "processAllProducts (scripted [spec_page]) [] =
     Some (Inr (), [EvGet ''products.json?limit=250'', EvPage 1 1,
                    EvReorder 1 ''Widget'' 1 2, EvPut 11 1, EvSleep 1000, EvPut 10 2, EvSleep 1000,
                    EvReorderDone, EvFinished])
   \<and> paced [EvGet ''products.json?limit=250'', EvPage 1 1,
            EvReorder 1 ''Widget'' 1 2, EvPut 11 1, EvSleep 1000, EvPut 10 2, EvSleep 1000,
            EvReorderDone, EvFinished]"
  using spec_page_run writes_paced [OF spec_page_run] by simp

text \<open>
  C19 (bounds across components). Whatever the server does, a run that returns has made at
  most six GET requests per page it processed, plus six for the request that ended it:
  the retry budget bounds the traffic of each page.
\<close>

theorem run_requests_bounded:
  assumes "processAllProducts T [] = Some (r, tr)"
  shows "gets tr \<le> 6 * (length (filter is_page tr) + 1)"
proof -
  obtain y where y: "pageLoop T ''products.json?limit=250'' 0 [] = Some y"
    and tr: "tr = snd y \<or> tr = snd y @ [EvFinished]"
    using assms by (auto simp: processAllProducts_def split: option.splits sum.splits)
  obtain seg where "snd y = [] @ seg" "gets seg \<le> 6 * (pages seg + 1)"
    using loop_gets_bounded [OF y] by blast
  then show ?thesis using tr by (auto simp: pages_def)
qed

theorem run_requests_bounded_witness:
  "gets [EvGet ''products.json?limit=250'', EvPage 1 1,
         EvReorder 1 ''Widget'' 1 2, EvPut 11 1, EvSleep 1000, EvPut 10 2, EvSleep 1000,
         EvReorderDone, EvFinished]
   \<le> 6 * (length (filter is_page [EvGet ''products.json?limit=250'', EvPage 1 1,
         EvReorder 1 ''Widget'' 1 2, EvPut 11 1, EvSleep 1000, EvPut 10 2, EvSleep 1000,
         EvReorderDone, EvFinished]) + 1)"
  using run_requests_bounded [OF spec_page_run] .

text \<open>
  C26 (shape of the requests, spec 6). Whatever the server answers, every GET of a run
  that returns is a listing path of the API: the first page, or the page of a non-empty
  cursor taken from a link reference, so without \<open>>\<close>.
\<close>

theorem run_requests_listing_paths:
  assumes "processAllProducts T [] = Some (r, tr)" and "EvGet u \<in> set tr"
  shows "listing_path u"
  using assms by (rule run_get_paths)

theorem run_requests_listing_paths_witness:
  "EvGet ''products.json?limit=250'' \<in> set [EvGet ''products.json?limit=250'', EvPage 1 1,
       EvReorder 1 ''Widget'' 1 2, EvPut 11 1, EvSleep 1000, EvPut 10 2, EvSleep 1000,
       EvReorderDone, EvFinished]
   \<and> listing_path ''products.json?limit=250''"
  using run_requests_listing_paths [OF spec_page_run, of "''products.json?limit=250''"] by simp

end
